(* ===== verification/Prelude.thy ===== *)
theory Prelude
  imports Main "HOL-Library.Word"
begin

text \<open>
  Shared vocabulary of the development: Go's fixed-width integers, byte slices, the error
  values that the program's calls return, the state-and-error results in which every call of
  the program is modelled, little-endian encodings (encoding/binary), and the collections of
  simplification rules that the component theories extend.
\<close>

unbundle bit_operations_syntax

section \<open>Collections of rules\<close>

named_theorems io_simps \<open>evaluation of calls on a connection\<close>
named_theorems len_simps \<open>lengths of encodings\<close>

section \<open>Go's integer types and byte slices\<close>

type_synonym byte = "8 word"
type_synonym u16 = "16 word"
type_synonym u32 = "32 word"
type_synonym i32 = "32 word"
type_synonym i64 = "64 word"
type_synonym bytes = "byte list"

text \<open>
  A Go \<open>int32\<close> or \<open>int64\<close> that travels on the wire is a word, read with \<open>sint\<close>.  The
  \<open>int64\<close> file offsets and lengths of the program are \<open>int\<close>: they stay below \<open>2 ^ 63\<close>
  (a file is shorter than that), so no wrap-around is lost.  A conversion \<open>int32(x)\<close> is
  \<open>to_int32\<close>, which does wrap.
\<close>

definition to_int32 :: "int \<Rightarrow> int" where
  "to_int32 x = sint (word_of_int x :: i32)"

lemma to_int32_id: "- (2 ^ 31) \<le> x \<Longrightarrow> x < 2 ^ 31 \<Longrightarrow> to_int32 x = x"
  by (simp add: to_int32_def signed_of_int signed_take_bit_int_eq_self)

lemma sint_word_of_int32: "- (2 ^ 31) \<le> x \<Longrightarrow> x < 2 ^ 31 \<Longrightarrow> sint (word_of_int x :: i32) = x"
  using to_int32_id [of x] by (simp add: to_int32_def)

lemma sint_word_of_nat32: "n < 2 ^ 31 \<Longrightarrow> sint (word_of_nat n :: i32) = int n"
  using sint_word_of_int32 [of "int n"] by simp

lemma sint32_bounds: "- (2 ^ 31) \<le> sint (x :: i32) \<and> sint x < 2 ^ 31"
  using sint_ge [of x] sint_lt [of x] by simp

text \<open>A string literal of the source as the bytes it consists of (Go strings are bytes).\<close>

definition bytes_of :: "string \<Rightarrow> bytes" where
  "bytes_of s = map (\<lambda>c. word_of_nat (of_char c)) s"

section \<open>Errors and results\<close>

text \<open>
  Every way in which a call of the program can fail.  \<open>Panic\<close> is a run-time panic (an index
  or a slice out of range, a negative \<open>make\<close>, an explicit \<open>panic\<close>); \<open>Errorf\<close> is an error
  built with \<open>fmt.Errorf\<close> (the message up to its arguments); \<open>PathError\<close> is the error of a
  file that cannot be opened.
\<close>

datatype err =
    EOF
  | ErrUnexpectedEOF
  | ErrWrite
  | ErrNotImplemented
  | PathError bool
  | IOError string
  | Errorf string
  | Panic string

text \<open>
  A call that reads and changes a state of type \<open>'s\<close> and returns either an error or a value.
  \<open>ebind m f\<close> is Go's \<open>x, err := m; if err != nil { return err }; f(x)\<close>.
\<close>

type_synonym ('s, 'a) io = "'s \<Rightarrow> (err + 'a) \<times> 's"

definition ret :: "'a \<Rightarrow> ('s, 'a) io" where
  "ret x s = (Inr x, s)"

definition fail :: "err \<Rightarrow> ('s, 'a) io" where
  "fail e s = (Inl e, s)"

definition ebind :: "('s, 'a) io \<Rightarrow> ('a \<Rightarrow> ('s, 'b) io) \<Rightarrow> ('s, 'b) io" where
  "ebind m f s = (case m s of (Inl e, s') \<Rightarrow> (Inl e, s') | (Inr x, s') \<Rightarrow> f x s')"

lemma ret_apply [simp, io_simps]: "ret x s = (Inr x, s)"
  by (simp add: ret_def)

lemma fail_apply [simp, io_simps]: "fail e s = (Inl e, s)"
  by (simp add: fail_def)

lemma ebind_Inr [io_simps]: "m s = (Inr x, s') \<Longrightarrow> ebind m f s = f x s'"
  by (simp add: ebind_def)

lemma ebind_Inl [io_simps]: "m s = (Inl e, s') \<Longrightarrow> ebind m f s = (Inl e, s')"
  by (simp add: ebind_def)

lemma ebind_eq_Inr:
  "ebind m f s = (Inr y, t) \<longleftrightarrow> (\<exists>x s'. m s = (Inr x, s') \<and> f x s' = (Inr y, t))"
  by (auto simp: ebind_def split: prod.splits sum.splits)

lemma ebind_eq_Inl:
  "ebind m f s = (Inl e, t) \<longleftrightarrow>
     m s = (Inl e, t) \<or> (\<exists>x s'. m s = (Inr x, s') \<and> f x s' = (Inl e, t))"
  by (auto simp: ebind_def split: prod.splits sum.splits)

lemma ebind_cong [fundef_cong]:
  assumes "m s = m' s'" and "\<And>x t. m' s' = (Inr x, t) \<Longrightarrow> f x t = f' x t"
  shows "ebind m f s = ebind m' f' s'"
  using assms by (auto simp: ebind_def split: prod.splits sum.splits)

lemma ebind_ret [simp]: "ebind (ret x) f = f x"
  by (simp add: ebind_def fun_eq_iff)

lemma ebind_fail [simp]: "ebind (fail e) f = fail e"
  by (simp add: ebind_def fun_eq_iff)

lemma ebind_assoc: "ebind (ebind m f) g = ebind m (\<lambda>x. ebind (f x) g)"
  by (auto simp: ebind_def fun_eq_iff split: prod.splits sum.splits)

text \<open>A run of calls, one for each element of a list (a \<open>for range\<close> loop with early return).\<close>

fun emap :: "('a \<Rightarrow> ('s, unit) io) \<Rightarrow> 'a list \<Rightarrow> ('s, unit) io" where
  "emap f [] = ret ()"
| "emap f (x # xs) = ebind (f x) (\<lambda>_. emap f xs)"

text \<open>
  A computation with a loop that might not end takes fuel; running out is \<open>None\<close>, the rest is
  as before.
\<close>

type_synonym ('s, 'a) run = "'s \<Rightarrow> ((err + 'a) \<times> 's) option"

definition lift :: "('s, 'a) io \<Rightarrow> ('s, 'a) run" where
  "lift m s = Some (m s)"

definition rbind :: "('s, 'a) run \<Rightarrow> ('a \<Rightarrow> ('s, 'b) run) \<Rightarrow> ('s, 'b) run" where
  "rbind m f s =
     (case m s of
        None \<Rightarrow> None
      | Some (Inl e, s') \<Rightarrow> Some (Inl e, s')
      | Some (Inr x, s') \<Rightarrow> f x s')"

lemma rbind_lift [simp]:
  "m s = (Inr x, t) \<Longrightarrow> rbind (lift m) f s = f x t"
  "m s = (Inl e, t) \<Longrightarrow> rbind (lift m) f s = Some (Inl e, t)"
  by (simp_all add: rbind_def lift_def)

lemma rbind_Some: "m s = Some (Inr x, t) \<Longrightarrow> rbind m f s = f x t"
  by (simp add: rbind_def)

lemma rbind_Inl: "m s = Some (Inl e, t) \<Longrightarrow> rbind m f s = Some (Inl e, t)"
  by (simp add: rbind_def)

section \<open>Little-endian encodings\<close>

text \<open>
  encoding/binary's \<open>LittleEndian\<close> on a value of \<open>n\<close> bytes: byte \<open>i\<close> is bits \<open>8i\<close> to
  \<open>8i + 7\<close>.
\<close>

fun le_enc :: "nat \<Rightarrow> 'a::len word \<Rightarrow> bytes" where
  "le_enc 0 x = []"
| "le_enc (Suc n) x = ucast x # le_enc n (drop_bit 8 x)"

fun le_dec :: "bytes \<Rightarrow> 'a::len word" where
  "le_dec [] = 0"
| "le_dec (b # bs) = ucast b OR push_bit 8 (le_dec bs)"

lemma length_le_enc [simp, len_simps]: "length (le_enc n x) = n"
  by (induction n arbitrary: x) auto

lemma bit_le_dec_enc:
  "bit (le_dec (le_enc n x) :: 'a::len word) i \<longleftrightarrow> bit (x :: 'a word) i \<and> i < 8 * n"
proof (induction n arbitrary: x i)
  case 0
  then show ?case by simp
next
  case (Suc n)
  show ?case
  proof (cases "i < 8")
    case True
    then show ?thesis
      by (auto simp: bit_or_iff bit_push_bit_iff bit_unsigned_iff dest: bit_imp_le_length)
  next
    case False
    then show ?thesis
      using Suc.IH [of "drop_bit 8 x" "i - 8"]
      by (auto simp: bit_or_iff bit_push_bit_iff bit_unsigned_iff bit_drop_bit_eq
          dest: bit_imp_le_length)
  qed
qed

lemma le_dec_enc: "LENGTH('a) \<le> 8 * n \<Longrightarrow> le_dec (le_enc n x) = (x :: 'a::len word)"
  by (rule bit_word_eqI) (simp add: bit_le_dec_enc)

lemma le_enc_dec:
  "8 * length bs \<le> LENGTH('a) \<Longrightarrow> le_enc (length bs) (le_dec bs :: 'a::len word) = bs"
proof (induction bs)
  case Nil
  then show ?case by simp
next
  case (Cons b bs)
  have hd: "ucast (ucast b OR push_bit 8 (le_dec bs) :: 'a word) = b"
    using Cons.prems
    by (intro bit_word_eqI) (auto simp: bit_unsigned_iff bit_or_iff bit_push_bit_iff)
  have le: "bit (le_dec bs :: 'a word) i \<Longrightarrow> i < 8 * length bs" for i
    by (induction bs arbitrary: i)
      (auto simp: bit_or_iff bit_push_bit_iff bit_unsigned_iff dest: bit_imp_le_length, fastforce)
  have tl: "drop_bit 8 (ucast b OR push_bit 8 (le_dec bs) :: 'a word) = le_dec bs"
    using Cons.prems
    by (intro bit_word_eqI)
      (auto simp: bit_drop_bit_eq bit_unsigned_iff bit_or_iff bit_push_bit_iff
        dest: bit_imp_le_length le)
  have "le_enc (length bs) (le_dec bs :: 'a word) = bs"
    using Cons by simp
  then show ?case
    by (simp only: list.size(4) add_0_right add_Suc_right le_enc.simps le_dec.simps hd tl One_nat_def)
qed

lemma le_dec_enc32 [simp]: "le_dec (le_enc 4 x) = (x :: i32)"
  by (simp add: le_dec_enc)

lemma le_dec_enc64 [simp]: "le_dec (le_enc 8 x) = (x :: i64)"
  by (simp add: le_dec_enc)

lemma bit_word_of_nat_less:
  assumes "bit (word_of_nat n :: 'a::len word) i" and "n < 2 ^ k"
  shows "i < k"
proof -
  have "bit (take_bit k n) i"
    using assms by (simp add: bit_simps take_bit_nat_eq_self)
  then show ?thesis by (simp add: bit_take_bit_iff)
qed

section \<open>Lists\<close>

text \<open>\<open>sub o n xs\<close> is the slice \<open>xs[o : o+n]\<close>; \<open>overwrite\<close> is a write at a position of a buffer.\<close>

definition sub :: "int \<Rightarrow> int \<Rightarrow> 'a list \<Rightarrow> 'a list" where
  "sub off n xs = take (nat n) (drop (nat off) xs)"

definition overwrite :: "int \<Rightarrow> 'a list \<Rightarrow> 'a list \<Rightarrow> 'a list" where
  "overwrite off bs w = take (nat off) w @ bs @ drop (nat off + length bs) w"

lemma length_sub [len_simps]:
  "0 \<le> off \<Longrightarrow> 0 \<le> n \<Longrightarrow> off + n \<le> int (length xs) \<Longrightarrow> length (sub off n xs) = nat n"
  by (simp add: sub_def)

lemma sub_zero [simp]: "sub off 0 xs = []"
  by (simp add: sub_def)

lemma sub_all: "sub 0 (int (length xs)) xs = xs"
  by (simp add: sub_def)

lemma sub_split:
  assumes "0 \<le> off" and "0 \<le> m" and "0 \<le> n"
  shows "sub off (m + n) xs = sub off m xs @ sub (off + m) n xs"
proof -
  have "nat (m + n) = nat m + nat n" "nat (off + m) = nat off + nat m"
    using assms by (simp_all add: nat_add_distrib)
  then show ?thesis by (simp add: sub_def take_add add.commute)
qed

lemma sub_sub:
  assumes "0 \<le> off" and "0 \<le> off'" and "off' + n' \<le> n"
  shows "sub off' n' (sub off n xs) = sub (off + off') n' xs"
proof (cases "0 \<le> n'")
  case True
  have "min (nat n') (nat n - nat off') = nat n'" "nat (off + off') = nat off' + nat off"
    using assms True by (auto simp: nat_add_distrib)
  then show ?thesis by (simp add: sub_def drop_take)
qed (simp add: sub_def)

lemma sub_append: "0 \<le> off \<Longrightarrow> off + n \<le> int (length xs) \<Longrightarrow> sub off n (xs @ ys) = sub off n xs"
  by (auto simp: sub_def)

lemma take_sub_prefix: "0 \<le> k \<Longrightarrow> k \<le> n \<Longrightarrow> take (nat k) (sub off n xs) = sub off k xs"
  by (simp add: sub_def min_def)

lemma sub_Cons:
  assumes "0 \<le> off" and "off < int (length xs)" and "1 \<le> n"
  shows "sub off n xs = xs ! nat off # sub (off + 1) (n - 1) xs"
proof -
  have lt: "nat off < length xs" using assms(1,2) by simp
  have "nat n = Suc (nat (n - 1))" "nat (off + 1) = Suc (nat off)" using assms by simp_all
  then show ?thesis by (simp add: sub_def Cons_nth_drop_Suc [OF lt, symmetric])
qed

lemma sub_one: "0 \<le> off \<Longrightarrow> off < int (length xs) \<Longrightarrow> sub off 1 xs = [xs ! nat off]"
  using sub_Cons [of off xs 1] by simp

lemma nth_sub:
  "0 \<le> off \<Longrightarrow> 0 \<le> i \<Longrightarrow> i < n \<Longrightarrow> off + n \<le> int (length xs) \<Longrightarrow> sub off n xs ! nat i = xs ! nat (off + i)"
  by (simp add: sub_def nat_add_distrib)

lemma drop_sub:
  assumes "0 \<le> off" and "0 \<le> m" and "0 \<le> n" and "off + (m + n) \<le> int (length xs)"
  shows "drop (nat m) (sub off (m + n) xs) = sub (off + m) n xs"
  using assms by (subst sub_split) (simp_all add: length_sub)

lemma length_overwrite:
  "nat off + length bs \<le> length w \<Longrightarrow> length (overwrite off bs w) = length w"
  by (simp add: overwrite_def)

lemma overwrite_overwrite:
  assumes "0 \<le> off" and "nat off + length as \<le> length w"
  shows "overwrite (off + int (length as)) bs (overwrite off as w) = overwrite off (as @ bs) w"
proof -
  have "nat (off + int (length as)) = nat off + length as" using assms by simp
  then show ?thesis using assms by (simp add: overwrite_def add.commute add.left_commute)
qed

end
