(* ===== verification/Popt.thy ===== *)
theory Popt
  imports Main "HOL-Library.Sublist" Prelude
begin

unbundle bit_operations_syntax

text \<open>
  rsyncopts/popt.go: the option parser.  A Go pointer into the \<open>Options\<close> struct is the name of the
  field; the struct is the value of each of its integer and string fields (\<open>ints\<close>, \<open>strs\<close>) and the
  \<open>info\<close> array.  Command-line strings are ASCII strings.
\<close>

section \<open>Options and contexts\<close>

record Options =
  ints :: "string \<Rightarrow> int"
  strs :: "string \<Rightarrow> string"
  info :: "u16 list"

text \<open>\<open>arg any\<close>: nil, a pointer to a field, or an \<open>int\<close> that is not a pointer.\<close>

datatype parg = ArgNil | ArgInt string | ArgString string | ArgNotPtr int

record poptOption =
  longName :: string
  shortName :: string
  argInfo :: int
  arg :: parg
  val :: int

definition POPT_ARG_NONE :: int where "POPT_ARG_NONE = 0"
definition POPT_ARG_STRING :: int where "POPT_ARG_STRING = 1"
definition POPT_ARG_INT :: int where "POPT_ARG_INT = 2"
definition POPT_ARG_VAL :: int where "POPT_ARG_VAL = 7"
definition POPT_ARG_MASK :: int where "POPT_ARG_MASK = 0xFF"
definition POPT_ARGFLAG_OR :: int where "POPT_ARGFLAG_OR = 0x08000000"
definition POPT_BIT_SET :: int where "POPT_BIT_SET = POPT_ARG_VAL OR POPT_ARGFLAG_OR"

lemmas POPT_defs = POPT_ARG_NONE_def POPT_ARG_STRING_def POPT_ARG_INT_def POPT_ARG_VAL_def
  POPT_ARG_MASK_def POPT_ARGFLAG_OR_def POPT_BIT_SET_def

definition POPT_ERROR_NOARG :: int where "POPT_ERROR_NOARG = -10"
definition POPT_ERROR_BADOPT :: int where "POPT_ERROR_BADOPT = -11"
definition POPT_ERROR_UNWANTEDARG :: int where "POPT_ERROR_UNWANTEDARG = -12"
definition POPT_ERROR_BADNUMBER :: int where "POPT_ERROR_BADNUMBER = -17"
definition POPT_ERROR_OVERFLOW :: int where "POPT_ERROR_OVERFLOW = -18"
definition POPT_ERROR_BADOPERATION :: int where "POPT_ERROR_BADOPERATION = -19"

datatype opt_err = PoptError int | NotYetImplemented | OptError string | OptPanic string

record Context =
  table :: "poptOption list"
  args :: "string list"
  nextCharArg :: string
  nextArg :: string
  opts :: Options
  RemainingArgs :: "string list"

fun findOption :: "poptOption list \<Rightarrow> string \<Rightarrow> string \<Rightarrow> poptOption option" where
  "findOption [] ln sn = None"
| "findOption (opt # tab) ln sn =
     (if ln \<noteq> [] \<and> longName opt = ln then Some opt
      else if sn \<noteq> [] \<and> shortName opt = sn then Some opt
      else findOption tab ln sn)"

section \<open>strconv.ParseInt with base 0\<close>

definition char_code :: "char \<Rightarrow> int" where "char_code c = of_char c"

definition lower :: "char \<Rightarrow> int" where
  "lower c = (if 65 \<le> char_code c \<and> char_code c \<le> 90 then char_code c + 32 else char_code c)"

text \<open>The value of a digit, letters counting from ten.\<close>

definition digit_val :: "char \<Rightarrow> int option" where
  "digit_val c =
     (if 48 \<le> char_code c \<and> char_code c \<le> 57 then Some (char_code c - 48)
      else if 97 \<le> lower c \<and> lower c \<le> 122 then Some (lower c - 97 + 10)
      else None)"

fun parse_digits :: "int \<Rightarrow> int \<Rightarrow> string \<Rightarrow> int option" where
  "parse_digits base n [] = Some n"
| "parse_digits base n (c # cs) =
     (if c = CHR ''_'' then parse_digits base n cs
      else (case digit_val c of
              None \<Rightarrow> None
            | Some d \<Rightarrow> if d \<ge> base then None else parse_digits base (n * base + d) cs))"

text \<open>The base and what follows its prefix.\<close>

definition split_base :: "string \<Rightarrow> int \<times> string" where
  "split_base s =
     (if s \<noteq> [] \<and> hd s = CHR ''0'' then
        (if length s \<ge> 3 \<and> lower (s ! 1) = 98 then (2, drop 2 s)
         else if length s \<ge> 3 \<and> lower (s ! 1) = 111 then (8, drop 2 s)
         else if length s \<ge> 3 \<and> lower (s ! 1) = 120 then (16, drop 2 s)
         else (8, drop 1 s))
      else (10, s))"

text \<open>Where underscores may stand; \<open>saw\<close> is the kind of the character before.\<close>

fun underscores_ok :: "bool \<Rightarrow> char \<Rightarrow> string \<Rightarrow> bool" where
  "underscores_ok hex saw [] = (saw \<noteq> CHR ''_'')"
| "underscores_ok hex saw (c # cs) =
     (if (48 \<le> char_code c \<and> char_code c \<le> 57) \<or> (hex \<and> 97 \<le> lower c \<and> lower c \<le> 102)
      then underscores_ok hex (CHR ''0'') cs
      else if c = CHR ''_'' then saw = CHR ''0'' \<and> underscores_ok hex (CHR ''_'') cs
      else saw \<noteq> CHR ''_'' \<and> underscores_ok hex (CHR ''!'') cs)"

definition underscoreOK :: "string \<Rightarrow> bool" where
  "underscoreOK s =
     (if length s \<ge> 2 \<and> hd s = CHR ''0'' \<and> lower (s ! 1) \<in> {98, 111, 120}
      then underscores_ok (lower (s ! 1) = 120) (CHR ''0'') (drop 2 s)
      else underscores_ok False (CHR ''^'') s)"

definition ParseInt :: "string \<Rightarrow> int option" where
  "ParseInt s0 =
     (if s0 = [] then None
      else
        (let neg = (hd s0 = CHR ''-'');
             s = (if hd s0 = CHR ''+'' \<or> neg then tl s0 else s0)
         in if s = [] then None
            else (case split_base s of (base, ds) \<Rightarrow>
              (case parse_digits base 0 ds of
                 None \<Rightarrow> None
               | Some n \<Rightarrow>
                   if CHR ''_'' \<in> set ds \<and> \<not> underscoreOK s then None
                   else if \<not> neg \<and> n \<ge> 2 ^ 63 then None
                   else if neg \<and> n > 2 ^ 63 then None
                   else Some (if neg then - n else n)))))"

section \<open>Storing an argument\<close>

definition set_int :: "string \<Rightarrow> int \<Rightarrow> Context \<Rightarrow> Context" where
  "set_int f x c = c\<lparr>opts := (opts c)\<lparr>ints := (ints (opts c))(f := x)\<rparr>\<rparr>"

definition set_str :: "string \<Rightarrow> string \<Rightarrow> Context \<Rightarrow> Context" where
  "set_str f x c = c\<lparr>opts := (opts c)\<lparr>strs := (strs (opts c))(f := x)\<rparr>\<rparr>"

definition poptSaveInt :: "poptOption \<Rightarrow> int \<Rightarrow> Context \<Rightarrow> opt_err + Context" where
  "poptSaveInt opt v c =
     (case arg opt of
        ArgInt f \<Rightarrow>
          (if argInfo opt AND POPT_ARGFLAG_OR \<noteq> 0
           then Inr (set_int f (ints (opts c) f OR v) c) else Inr (set_int f v c))
      | _ \<Rightarrow> Inl (OptPanic ''interface conversion''))"

definition poptSaveArg :: "poptOption \<Rightarrow> string \<Rightarrow> Context \<Rightarrow> opt_err + Context" where
  "poptSaveArg opt next c =
     (let argType = argInfo opt AND POPT_ARG_MASK
      in if argType = POPT_ARG_INT then
           (case ParseInt next of
              None \<Rightarrow> Inl (PoptError POPT_ERROR_BADNUMBER)
            | Some i \<Rightarrow>
                if i < - (2 ^ 31) \<or> i > 2 ^ 31 - 1 then Inl (PoptError POPT_ERROR_OVERFLOW)
                else poptSaveInt opt i c)
         else if argType = POPT_ARG_STRING then
           (case arg opt of
              ArgString f \<Rightarrow> Inr (set_str f next c)
            | _ \<Rightarrow> Inl (OptPanic ''interface conversion''))
         else Inl (PoptError POPT_ERROR_BADOPERATION))"

section \<open>The next option\<close>

text \<open>\<open>strings.Cut(s, "=")\<close>: what is before the first \<open>=\<close>, and what is after it (empty if there is none).\<close>

definition cut_eq :: "string \<Rightarrow> string \<times> string" where
  "cut_eq s = (takeWhile (\<lambda>c. c \<noteq> CHR ''='') s, drop 1 (dropWhile (\<lambda>c. c \<noteq> CHR ''='') s))"

definition trim_dash :: "string \<Rightarrow> string" where
  "trim_dash s = (if prefix ''-'' s then drop 1 s else s)"

text \<open>The option has been found; \<open>None\<close> in the result sends the parser around its loop again.\<close>

definition popt_apply :: "poptOption \<Rightarrow> string \<Rightarrow> Context \<Rightarrow> opt_err + int option \<times> Context" where
  "popt_apply opt longArg c =
     (let argType = argInfo opt AND POPT_ARG_MASK;
          ending = (\<lambda>c. Inr (if val opt \<noteq> 0 \<and> argType \<noteq> POPT_ARG_VAL then Some (val opt) else None, c))
      in if argType = POPT_ARG_NONE \<or> argType = POPT_ARG_VAL then
           (if longArg \<noteq> [] \<or> prefix ''='' (nextCharArg c) then Inl (PoptError POPT_ERROR_UNWANTEDARG)
            else if arg opt \<noteq> ArgNil then
              (case poptSaveInt opt (if argType = POPT_ARG_VAL then val opt else 1) c of
                 Inl e \<Rightarrow> Inl e | Inr c' \<Rightarrow> ending c')
            else ending c)
         else
           (let taken =
                  (if longArg \<noteq> [] then Some (longArg, c)
                   else if nextCharArg c \<noteq> [] then
                     Some (if prefix ''='' (nextCharArg c) then drop 1 (nextCharArg c) else nextCharArg c,
                           c\<lparr>nextCharArg := []\<rparr>)
                   else if args c = [] then None
                   else Some (hd (args c), c\<lparr>args := tl (args c)\<rparr>))
            in case taken of
                 None \<Rightarrow> Inl (PoptError POPT_ERROR_NOARG)
               | Some (next, c1) \<Rightarrow>
                   (let c2 = c1\<lparr>nextArg := next\<rparr>
                    in if arg opt \<noteq> ArgNil then
                         (case poptSaveArg opt next c2 of Inl e \<Rightarrow> Inl e | Inr c3 \<Rightarrow> ending c3)
                       else ending c2)))"

definition popt_short :: "Context \<Rightarrow> opt_err + int option \<times> Context" where
  "popt_short c =
     (case findOption (table c) [] (take 1 (nextCharArg c)) of
        None \<Rightarrow> Inl (PoptError POPT_ERROR_BADOPT)
      | Some opt \<Rightarrow> popt_apply opt [] (c\<lparr>nextCharArg := tl (nextCharArg c)\<rparr>))"

definition popt_step :: "Context \<Rightarrow> opt_err + int option \<times> Context" where
  "popt_step c =
     (if nextCharArg c = [] \<and> args c = [] then Inr (Some (-1), c)
      else if nextCharArg c = [] then
        (let orig = hd (args c); c1 = c\<lparr>args := tl (args c)\<rparr>
         in if orig = [] then Inl (PoptError POPT_ERROR_BADOPT)
            else if hd orig \<noteq> CHR ''-'' \<or> orig = ''-'' then
              Inr (None, c1\<lparr>RemainingArgs := RemainingArgs c1 @ [orig]\<rparr>)
            else
              (case cut_eq orig of (head, longArg) \<Rightarrow>
                 (case findOption (table c1) (trim_dash (trim_dash head)) [] of
                    None \<Rightarrow> popt_short (c1\<lparr>nextCharArg := tl orig\<rparr>)
                  | Some opt \<Rightarrow> popt_apply opt longArg c1)))
      else popt_short c)"

text \<open>Every round of the loop takes an argument or a character away.\<close>

definition weight :: "Context \<Rightarrow> nat" where
  "weight c = length (nextCharArg c) + sum_list (map (\<lambda>a. Suc (length a)) (args c))"

lemma weight_set [simp]:
  "weight (set_int f x c) = weight c" "weight (set_str f y c) = weight c"
  "weight (c\<lparr>nextArg := z\<rparr>) = weight c" "weight (c\<lparr>RemainingArgs := r\<rparr>) = weight c"
  by (simp_all add: weight_def set_int_def set_str_def)

lemma weight_poptSaveInt: "poptSaveInt opt v c = Inr c' \<Longrightarrow> weight c' = weight c"
  by (auto simp: poptSaveInt_def split: parg.splits if_splits)

lemma weight_poptSaveArg: "poptSaveArg opt next c = Inr c' \<Longrightarrow> weight c' = weight c"
  by (auto simp: poptSaveArg_def Let_def split: parg.splits if_splits option.splits dest: weight_poptSaveInt)

lemma weight_popt_apply: "popt_apply opt longArg c = Inr (r, c') \<Longrightarrow> weight c' \<le> weight c"
proof -
  have tl: "weight (c\<lparr>args := tl (args c)\<rparr>) \<le> weight c" by (cases "args c") (simp_all add: weight_def)
  have nc: "weight (c\<lparr>nextCharArg := []\<rparr>) \<le> weight c" by (simp add: weight_def)
  assume "popt_apply opt longArg c = Inr (r, c')"
  then show ?thesis
    using tl nc
    by (auto simp: popt_apply_def Let_def split: if_splits sum.splits dest!: weight_poptSaveInt weight_poptSaveArg)
qed

lemma weight_popt_short: "nextCharArg c \<noteq> [] \<Longrightarrow> popt_short c = Inr (r, c') \<Longrightarrow> weight c' < weight c"
proof -
  assume ne: "nextCharArg c \<noteq> []" and "popt_short c = Inr (r, c')"
  then obtain opt where "popt_apply opt [] (c\<lparr>nextCharArg := tl (nextCharArg c)\<rparr>) = Inr (r, c')"
    by (auto simp: popt_short_def split: option.splits)
  then have "weight c' \<le> weight (c\<lparr>nextCharArg := tl (nextCharArg c)\<rparr>)" by (rule weight_popt_apply)
  with ne show ?thesis by (cases "nextCharArg c") (simp_all add: weight_def)
qed

lemma weight_popt_step:
  assumes "popt_step c = Inr (None, c')" shows "weight c' < weight c"
proof (cases "nextCharArg c = []")
  case False
  with assms weight_popt_short show ?thesis by (auto simp: popt_step_def)
next
  case True
  then have ne: "args c \<noteq> []" using assms by (auto simp: popt_step_def)
  then obtain a as where as: "args c = a # as" by (cases "args c") auto
  let ?c1 = "c\<lparr>args := as\<rparr>"
  have w1: "weight ?c1 < weight c" using as by (simp add: weight_def)
  have ws: "weight (?c1\<lparr>nextCharArg := tl a\<rparr>) \<le> weight c"
    using as True by (simp add: weight_def)
  show ?thesis
  proof (cases "hd a \<noteq> CHR ''-'' \<or> a = ''-''")
    case True
    with assms \<open>nextCharArg c = []\<close> as w1 show ?thesis
      by (auto simp: popt_step_def Let_def split: if_splits)
  next
    case False
    then have "tl a \<noteq> []" if "a \<noteq> []" using that by (cases a) auto
    with False assms True as w1 ws
      weight_popt_short [of "?c1\<lparr>nextCharArg := tl a\<rparr>" None c'] weight_popt_apply [of _ _ ?c1 None c']
    show ?thesis
      by (fastforce simp: popt_step_def Let_def cut_eq_def split: if_splits option.splits)
  qed
qed

function poptGetNextOpt :: "Context \<Rightarrow> opt_err + int \<times> Context" where
  "poptGetNextOpt c =
     (case popt_step c of
        Inl e \<Rightarrow> Inl e
      | Inr (Some v, c') \<Rightarrow> Inr (v, c')
      | Inr (None, c') \<Rightarrow> poptGetNextOpt c')"
  by pat_completeness auto
termination by (relation "measure weight") (auto dest: weight_popt_step)

declare poptGetNextOpt.simps [simp del]

definition poptGetOptArg :: "Context \<Rightarrow> string \<times> Context" where
  "poptGetOptArg c = (nextArg c, c\<lparr>nextArg := []\<rparr>)"

end
