(* ===== verification/Options.thy ===== *)
theory Options
  imports Popt
begin

text \<open>
  rsyncopts/rsyncopts.go: the option tables, \<open>NewOptions\<close>, the verbosity words and
  \<open>ParseArguments\<close>.  The tables are transcribed row by row, in the source's order.
\<close>

section \<open>Constants\<close>

definition OPT_SERVER :: int where "OPT_SERVER = 1000"
definition OPT_DAEMON :: int where "OPT_DAEMON = 1001"
definition OPT_SENDER :: int where "OPT_SENDER = 1002"
definition OPT_EXCLUDE :: int where "OPT_EXCLUDE = 1003"
definition OPT_EXCLUDE_FROM :: int where "OPT_EXCLUDE_FROM = 1004"
definition OPT_FILTER :: int where "OPT_FILTER = 1005"
definition OPT_COMPARE_DEST :: int where "OPT_COMPARE_DEST = 1006"
definition OPT_COPY_DEST :: int where "OPT_COPY_DEST = 1007"
definition OPT_LINK_DEST :: int where "OPT_LINK_DEST = 1008"
definition OPT_HELP :: int where "OPT_HELP = 1009"
definition OPT_INCLUDE :: int where "OPT_INCLUDE = 1010"
definition OPT_INCLUDE_FROM :: int where "OPT_INCLUDE_FROM = 1011"
definition OPT_MODIFY_WINDOW :: int where "OPT_MODIFY_WINDOW = 1012"
definition OPT_MIN_SIZE :: int where "OPT_MIN_SIZE = 1013"
definition OPT_CHMOD :: int where "OPT_CHMOD = 1014"
definition OPT_READ_BATCH :: int where "OPT_READ_BATCH = 1015"
definition OPT_WRITE_BATCH :: int where "OPT_WRITE_BATCH = 1016"
definition OPT_ONLY_WRITE_BATCH :: int where "OPT_ONLY_WRITE_BATCH = 1017"
definition OPT_MAX_SIZE :: int where "OPT_MAX_SIZE = 1018"
definition OPT_NO_D :: int where "OPT_NO_D = 1019"
definition OPT_APPEND :: int where "OPT_APPEND = 1020"
definition OPT_NO_ICONV :: int where "OPT_NO_ICONV = 1021"
definition OPT_INFO :: int where "OPT_INFO = 1022"
definition OPT_DEBUG :: int where "OPT_DEBUG = 1023"
definition OPT_BLOCK_SIZE :: int where "OPT_BLOCK_SIZE = 1024"
definition OPT_USERMAP :: int where "OPT_USERMAP = 1025"
definition OPT_GROUPMAP :: int where "OPT_GROUPMAP = 1026"
definition OPT_CHOWN :: int where "OPT_CHOWN = 1027"
definition OPT_BWLIMIT :: int where "OPT_BWLIMIT = 1028"
definition OPT_STDERR :: int where "OPT_STDERR = 1029"
definition OPT_OLD_COMPRESS :: int where "OPT_OLD_COMPRESS = 1030"
definition OPT_NEW_COMPRESS :: int where "OPT_NEW_COMPRESS = 1031"
definition OPT_NO_COMPRESS :: int where "OPT_NO_COMPRESS = 1032"
definition OPT_OLD_ARGS :: int where "OPT_OLD_ARGS = 1033"
definition OPT_STOP_AFTER :: int where "OPT_STOP_AFTER = 1034"
definition OPT_STOP_AT :: int where "OPT_STOP_AT = 1035"
definition OPT_REFUSED_BASE :: int where "OPT_REFUSED_BASE = 9000"

lemmas OPT_defs = OPT_SERVER_def OPT_DAEMON_def OPT_SENDER_def OPT_EXCLUDE_def OPT_EXCLUDE_FROM_def OPT_FILTER_def OPT_COMPARE_DEST_def OPT_COPY_DEST_def OPT_LINK_DEST_def OPT_HELP_def OPT_INCLUDE_def OPT_INCLUDE_FROM_def OPT_MODIFY_WINDOW_def OPT_MIN_SIZE_def OPT_CHMOD_def OPT_READ_BATCH_def OPT_WRITE_BATCH_def OPT_ONLY_WRITE_BATCH_def OPT_MAX_SIZE_def OPT_NO_D_def OPT_APPEND_def OPT_NO_ICONV_def OPT_INFO_def OPT_DEBUG_def OPT_BLOCK_SIZE_def OPT_USERMAP_def OPT_GROUPMAP_def OPT_CHOWN_def OPT_BWLIMIT_def OPT_STDERR_def OPT_OLD_COMPRESS_def OPT_NEW_COMPRESS_def OPT_NO_COMPRESS_def OPT_OLD_ARGS_def OPT_STOP_AFTER_def OPT_STOP_AT_def OPT_REFUSED_BASE_def

definition AF_INET :: int where "AF_INET = 2"
definition AF_INET6 :: int where "AF_INET6 = 10"

definition INFO_NAME :: nat where "INFO_NAME = 6"
definition INFO_NONREG :: nat where "INFO_NONREG = 7"
definition COUNT_INFO :: nat where "COUNT_INFO = 13"

section \<open>Options\<close>

text \<open>The fields with a default other than zero or the empty string.\<close>

definition NewOptions :: Options where
  "NewOptions =
     \<lparr>ints = (\<lambda>_. 0)(''msgs2stderr'' := 2, ''output_motd'' := 1, ''human_readable'' := 1,
        ''allow_inc_recurse'' := 1, ''xfer_dirs'' := -1, ''relative_paths'' := -1,
        ''implied_dirs'' := 1, ''max_delete'' := - (2 ^ 31), ''whole_file'' := -1,
        ''do_compression_level'' := - (2 ^ 31), ''default_af_hint'' := AF_INET6,
        ''blocking_io'' := -1, ''protocol_version'' := 27),
      strs = (\<lambda>_. [])(''rsync_path'' := ''rsync''),
      info = replicate COUNT_INFO 0\<rparr>"

definition opt_set :: "string \<Rightarrow> int \<Rightarrow> Options \<Rightarrow> Options" where
  "opt_set f x o' = o'\<lparr>ints := (ints o')(f := x)\<rparr>"

definition opt_inc :: "string \<Rightarrow> Options \<Rightarrow> Options" where
  "opt_inc f o' = opt_set f (ints o' f + 1) o'"

definition opt_str :: "string \<Rightarrow> string \<Rightarrow> Options \<Rightarrow> Options" where
  "opt_str f x o' = o'\<lparr>strs := (strs o')(f := x)\<rparr>"

section \<open>Accessors\<close>

definition ShellCommand :: "Options \<Rightarrow> string" where "ShellCommand o' = strs o' ''shell_cmd''"
definition UpdateOnly :: "Options \<Rightarrow> bool" where "UpdateOnly o' \<longleftrightarrow> ints o' ''update_only'' \<noteq> 0"
definition o_DryRun :: "Options \<Rightarrow> bool" where "o_DryRun o' \<longleftrightarrow> ints o' ''dry_run'' \<noteq> 0"
definition o_PreserveLinks :: "Options \<Rightarrow> bool" where "o_PreserveLinks o' \<longleftrightarrow> ints o' ''preserve_links'' \<noteq> 0"
definition o_PreserveUid :: "Options \<Rightarrow> bool" where "o_PreserveUid o' \<longleftrightarrow> ints o' ''preserve_uid'' \<noteq> 0"
definition o_PreserveGid :: "Options \<Rightarrow> bool" where "o_PreserveGid o' \<longleftrightarrow> ints o' ''preserve_gid'' \<noteq> 0"
definition o_PreserveDevices :: "Options \<Rightarrow> bool" where "o_PreserveDevices o' \<longleftrightarrow> ints o' ''preserve_devices'' \<noteq> 0"
definition PreserveMTimes :: "Options \<Rightarrow> bool" where "PreserveMTimes o' \<longleftrightarrow> ints o' ''preserve_mtimes'' \<noteq> 0"
definition o_PreservePerms :: "Options \<Rightarrow> bool" where "o_PreservePerms o' \<longleftrightarrow> ints o' ''preserve_perms'' \<noteq> 0"
definition o_PreserveSpecials :: "Options \<Rightarrow> bool" where "o_PreserveSpecials o' \<longleftrightarrow> ints o' ''preserve_specials'' \<noteq> 0"
definition PreserveHardLinks :: "Options \<Rightarrow> bool" where "PreserveHardLinks o' \<longleftrightarrow> ints o' ''preserve_hard_links'' \<noteq> 0"
definition Recurse :: "Options \<Rightarrow> bool" where "Recurse o' \<longleftrightarrow> ints o' ''recurse'' \<noteq> 0"
definition o_Verbose :: "Options \<Rightarrow> bool" where "o_Verbose o' \<longleftrightarrow> ints o' ''verbose'' \<noteq> 0"
definition o_DeleteMode :: "Options \<Rightarrow> bool" where "o_DeleteMode o' \<longleftrightarrow> ints o' ''delete_mode'' \<noteq> 0"
definition Sender :: "Options \<Rightarrow> bool" where "Sender o' \<longleftrightarrow> ints o' ''am_sender'' \<noteq> 0"
definition SetSender :: "Options \<Rightarrow> Options" where "SetSender o' = opt_set ''am_sender'' 1 o'"
definition LocalServer :: "Options \<Rightarrow> bool" where "LocalServer o' \<longleftrightarrow> ints o' ''local_server'' \<noteq> 0"
definition SetLocalServer :: "Options \<Rightarrow> Options" where "SetLocalServer o' = opt_set ''local_server'' 1 o'"
definition Server :: "Options \<Rightarrow> bool" where "Server o' \<longleftrightarrow> ints o' ''am_server'' \<noteq> 0"
definition Daemon :: "Options \<Rightarrow> bool" where "Daemon o' \<longleftrightarrow> ints o' ''am_daemon'' \<noteq> 0"
definition ConnectTimeoutSeconds :: "Options \<Rightarrow> int" where "ConnectTimeoutSeconds o' = ints o' ''connect_timeout''"
definition o_AlwaysChecksum :: "Options \<Rightarrow> bool" where "o_AlwaysChecksum o' \<longleftrightarrow> ints o' ''always_checksum'' \<noteq> 0"
definition Compress :: "Options \<Rightarrow> bool" where "Compress o' \<longleftrightarrow> ints o' ''do_compression'' \<noteq> 0"
definition CompressChoice :: "Options \<Rightarrow> string" where "CompressChoice o' = strs o' ''compress_choice''"
definition CompressLevel :: "Options \<Rightarrow> int" where "CompressLevel o' = ints o' ''do_compression_level''"
definition o_IgnoreTimes :: "Options \<Rightarrow> bool" where "o_IgnoreTimes o' \<longleftrightarrow> ints o' ''ignore_times'' = 1"
definition o_SizeOnly :: "Options \<Rightarrow> bool" where "o_SizeOnly o' \<longleftrightarrow> ints o' ''size_only'' = 1"

section \<open>The tables\<close>

definition row :: "string \<Rightarrow> string \<Rightarrow> int \<Rightarrow> parg \<Rightarrow> int \<Rightarrow> poptOption" where
  "row ln sn ai a v = \<lparr>longName = ln, shortName = sn, argInfo = ai, arg = a, val = v\<rparr>"

definition gokrazy_table :: "poptOption list" where
  "gokrazy_table =
    [row ''gokr.config'' '''' POPT_ARG_STRING (ArgString ''Config'') 0,
     row ''gokr.listen'' '''' POPT_ARG_STRING (ArgString ''Listen'') 0,
     row ''gokr.monitoring_listen'' '''' POPT_ARG_STRING (ArgString ''MonitoringListen'') 0,
     row ''gokr.anonssh_listen'' '''' POPT_ARG_STRING (ArgString ''AnonSSHListen'') 0,
     row ''gokr.modulemap'' '''' POPT_ARG_STRING (ArgString ''ModuleMap'') 0]"

definition daemonTable :: "poptOption list" where
  "daemonTable =
    [row ''help'' '''' POPT_ARG_NONE ArgNil OPT_HELP,
     row ''address'' '''' POPT_ARG_STRING (ArgString ''bind_address'') 0,
     row ''bwlimit'' '''' POPT_ARG_INT (ArgInt ''daemon_bwlimit'') 0,
     row ''config'' '''' POPT_ARG_STRING (ArgString ''config_file'') 0,
     row ''daemon'' '''' POPT_ARG_NONE (ArgInt ''daemon_opt'') 0,
     row ''dparam'' ''M'' POPT_ARG_STRING ArgNil (char_code (CHR ''M'')),
     row ''ipv4'' ''4'' POPT_ARG_VAL (ArgInt ''default_af_hint'') AF_INET,
     row ''ipv6'' ''6'' POPT_ARG_VAL (ArgInt ''default_af_hint'') AF_INET6,
     row ''detach'' '''' POPT_ARG_VAL (ArgInt ''no_detach'') 0,
     row ''no-detach'' '''' POPT_ARG_VAL (ArgInt ''no_detach'') 1,
     row ''log-file'' '''' POPT_ARG_STRING (ArgString ''logfile_name'') 0,
     row ''log-file-format'' '''' POPT_ARG_STRING (ArgString ''logfile_format'') 0,
     row ''port'' '''' POPT_ARG_INT (ArgInt ''rsync_port'') 0,
     row ''sockopts'' '''' POPT_ARG_STRING (ArgString ''sockopts'') 0,
     row ''protocol'' '''' POPT_ARG_INT (ArgInt ''protocol_version'') 0,
     row ''server'' '''' POPT_ARG_NONE (ArgInt ''am_server'') 0,
     row ''temp-dir'' ''T'' POPT_ARG_STRING (ArgString ''tmpdir'') 0,
     row ''verbose'' ''v'' POPT_ARG_NONE (ArgNotPtr 0) (char_code (CHR ''v'')),
     row ''no-verbose'' '''' POPT_ARG_VAL (ArgInt ''verbose'') 0,
     row ''no-v'' '''' POPT_ARG_VAL (ArgInt ''verbose'') 0,
     row ''help'' ''h'' POPT_ARG_NONE (ArgNotPtr 0) (char_code (CHR ''h''))]"

definition options_table_1 :: "poptOption list" where
  "options_table_1 =
    [row ''help'' '''' POPT_ARG_NONE ArgNil OPT_HELP,
     row ''version'' ''V'' POPT_ARG_NONE ArgNil (char_code (CHR ''V'')),
     row ''verbose'' ''v'' POPT_ARG_NONE ArgNil (char_code (CHR ''v'')),
     row ''no-verbose'' '''' POPT_ARG_VAL (ArgInt ''verbose'') 0,
     row ''no-v'' '''' POPT_ARG_VAL (ArgInt ''verbose'') 0,
     row ''info'' '''' POPT_ARG_STRING ArgNil OPT_INFO,
     row ''debug'' '''' POPT_ARG_STRING ArgNil OPT_DEBUG,
     row ''stderr'' '''' POPT_ARG_STRING ArgNil OPT_STDERR,
     row ''msgs2stderr'' '''' POPT_ARG_VAL (ArgInt ''msgs2stderr'') 1,
     row ''no-msgs2stderr'' '''' POPT_ARG_VAL (ArgInt ''msgs2stderr'') 0,
     row ''quiet'' ''q'' POPT_ARG_NONE ArgNil (char_code (CHR ''q'')),
     row ''motd'' '''' POPT_ARG_VAL (ArgInt ''output_motd'') 1,
     row ''no-motd'' '''' POPT_ARG_VAL (ArgInt ''output_motd'') 0,
     row ''stats'' '''' POPT_ARG_NONE (ArgInt ''do_stats'') 0,
     row ''human-readable'' ''h'' POPT_ARG_NONE ArgNil (char_code (CHR ''h'')),
     row ''no-human-readable'' '''' POPT_ARG_VAL (ArgInt ''human_readable'') 0,
     row ''no-h'' '''' POPT_ARG_VAL (ArgInt ''human_readable'') 0,
     row ''dry-run'' ''n'' POPT_ARG_NONE (ArgInt ''dry_run'') 0,
     row ''archive'' ''a'' POPT_ARG_NONE ArgNil (char_code (CHR ''a'')),
     row ''recursive'' ''r'' POPT_ARG_VAL (ArgInt ''recurse'') 2,
     row ''no-recursive'' '''' POPT_ARG_VAL (ArgInt ''recurse'') 0,
     row ''no-r'' '''' POPT_ARG_VAL (ArgInt ''recurse'') 0,
     row ''inc-recursive'' '''' POPT_ARG_VAL (ArgInt ''allow_inc_recurse'') 1,
     row ''no-inc-recursive'' '''' POPT_ARG_VAL (ArgInt ''allow_inc_recurse'') 0,
     row ''i-r'' '''' POPT_ARG_VAL (ArgInt ''allow_inc_recurse'') 1,
     row ''no-i-r'' '''' POPT_ARG_VAL (ArgInt ''allow_inc_recurse'') 0,
     row ''dirs'' ''d'' POPT_ARG_VAL (ArgInt ''xfer_dirs'') 2,
     row ''no-dirs'' '''' POPT_ARG_VAL (ArgInt ''xfer_dirs'') 0,
     row ''no-d'' '''' POPT_ARG_VAL (ArgInt ''xfer_dirs'') 0,
     row ''old-dirs'' '''' POPT_ARG_VAL (ArgInt ''xfer_dirs'') 4,
     row ''old-d'' '''' POPT_ARG_VAL (ArgInt ''xfer_dirs'') 4,
     row ''perms'' ''p'' POPT_ARG_VAL (ArgInt ''preserve_perms'') 1,
     row ''no-perms'' '''' POPT_ARG_VAL (ArgInt ''preserve_perms'') 0,
     row ''no-p'' '''' POPT_ARG_VAL (ArgInt ''preserve_perms'') 0,
     row ''executability'' ''E'' POPT_ARG_NONE (ArgInt ''preserve_executability'') 0,
     row ''acls'' ''A'' POPT_ARG_NONE ArgNil (char_code (CHR ''A'')),
     row ''no-acls'' '''' POPT_ARG_VAL (ArgInt ''preserve_acls'') 0,
     row ''no-A'' '''' POPT_ARG_VAL (ArgInt ''preserve_acls'') 0,
     row ''xattrs'' ''X'' POPT_ARG_NONE ArgNil (char_code (CHR ''X'')),
     row ''no-xattrs'' '''' POPT_ARG_VAL (ArgInt ''preserve_xattrs'') 0,
     row ''no-X'' '''' POPT_ARG_VAL (ArgInt ''preserve_xattrs'') 0,
     row ''times'' ''t'' POPT_ARG_VAL (ArgInt ''preserve_mtimes'') 1,
     row ''no-times'' '''' POPT_ARG_VAL (ArgInt ''preserve_mtimes'') 0,
     row ''no-t'' '''' POPT_ARG_VAL (ArgInt ''preserve_mtimes'') 0,
     row ''atimes'' ''U'' POPT_ARG_NONE ArgNil (char_code (CHR ''U'')),
     row ''no-atimes'' '''' POPT_ARG_VAL (ArgInt ''preserve_atimes'') 0,
     row ''no-U'' '''' POPT_ARG_VAL (ArgInt ''preserve_atimes'') 0,
     row ''open-noatime'' '''' POPT_ARG_VAL (ArgInt ''open_noatime'') 1,
     row ''no-open-noatime'' '''' POPT_ARG_VAL (ArgInt ''open_noatime'') 0,
     row ''crtimes'' ''N'' POPT_ARG_NONE (ArgInt ''preserve_crtimes'') 1,
     row ''no-crtimes'' '''' POPT_ARG_VAL (ArgInt ''preserve_crtimes'') 0,
     row ''no-N'' '''' POPT_ARG_VAL (ArgInt ''preserve_crtimes'') 0,
     row ''omit-dir-times'' ''O'' POPT_ARG_VAL (ArgInt ''omit_dir_times'') 1,
     row ''no-omit-dir-times'' '''' POPT_ARG_VAL (ArgInt ''omit_dir_times'') 0,
     row ''no-O'' '''' POPT_ARG_VAL (ArgInt ''omit_dir_times'') 0,
     row ''omit-link-times'' ''J'' POPT_ARG_VAL (ArgInt ''omit_link_times'') 1,
     row ''no-omit-link-times'' '''' POPT_ARG_VAL (ArgInt ''omit_link_times'') 0,
     row ''no-J'' '''' POPT_ARG_VAL (ArgInt ''omit_link_times'') 0,
     row ''modify-window'' ''@'' POPT_ARG_INT (ArgInt ''modify_window'') OPT_MODIFY_WINDOW,
     row ''super'' '''' POPT_ARG_VAL (ArgInt ''am_root'') 2,
     row ''no-super'' '''' POPT_ARG_VAL (ArgInt ''am_root'') 0,
     row ''fake-super'' '''' POPT_ARG_VAL (ArgInt ''am_root'') (-1),
     row ''owner'' ''o'' POPT_ARG_VAL (ArgInt ''preserve_uid'') 1,
     row ''no-owner'' '''' POPT_ARG_VAL (ArgInt ''preserve_uid'') 0,
     row ''no-o'' '''' POPT_ARG_VAL (ArgInt ''preserve_uid'') 0,
     row ''group'' ''g'' POPT_ARG_VAL (ArgInt ''preserve_gid'') 1,
     row ''no-group'' '''' POPT_ARG_VAL (ArgInt ''preserve_gid'') 0,
     row ''no-g'' '''' POPT_ARG_VAL (ArgInt ''preserve_gid'') 0,
     row '''' ''D'' POPT_ARG_NONE ArgNil (char_code (CHR ''D'')),
     row ''no-D'' '''' POPT_ARG_NONE ArgNil OPT_NO_D,
     row ''devices'' '''' POPT_ARG_VAL (ArgInt ''preserve_devices'') 1,
     row ''no-devices'' '''' POPT_ARG_VAL (ArgInt ''preserve_devices'') 0,
     row ''copy-devices'' '''' POPT_ARG_NONE (ArgInt ''copy_devices'') 0,
     row ''write-devices'' '''' POPT_ARG_VAL (ArgInt ''write_devices'') 1,
     row ''no-write-devices'' '''' POPT_ARG_VAL (ArgInt ''write_devices'') 0,
     row ''specials'' '''' POPT_ARG_VAL (ArgInt ''preserve_specials'') 1,
     row ''no-specials'' '''' POPT_ARG_VAL (ArgInt ''preserve_specials'') 0,
     row ''links'' ''l'' POPT_ARG_VAL (ArgInt ''preserve_links'') 1,
     row ''no-links'' '''' POPT_ARG_VAL (ArgInt ''preserve_links'') 0,
     row ''no-l'' '''' POPT_ARG_VAL (ArgInt ''preserve_links'') 0,
     row ''copy-links'' ''L'' POPT_ARG_NONE (ArgInt ''copy_links'') 0,
     row ''copy-unsafe-links'' '''' POPT_ARG_NONE (ArgInt ''copy_unsafe_links'') 0,
     row ''safe-links'' '''' POPT_ARG_NONE (ArgInt ''safe_symlinks'') 0,
     row ''munge-links'' '''' POPT_ARG_VAL (ArgInt ''munge_symlinks'') 1,
     row ''no-munge-links'' '''' POPT_ARG_VAL (ArgInt ''munge_symlinks'') 0,
     row ''copy-dirlinks'' ''k'' POPT_ARG_NONE (ArgInt ''copy_dirlinks'') 0,
     row ''keep-dirlinks'' ''K'' POPT_ARG_NONE (ArgInt ''keep_dirlinks'') 0,
     row ''hard-links'' ''H'' POPT_ARG_NONE ArgNil (char_code (CHR ''H'')),
     row ''no-hard-links'' '''' POPT_ARG_VAL (ArgInt ''preserve_hard_links'') 0,
     row ''no-H'' '''' POPT_ARG_VAL (ArgInt ''preserve_hard_links'') 0,
     row ''relative'' ''R'' POPT_ARG_VAL (ArgInt ''relative_paths'') 1,
     row ''no-relative'' '''' POPT_ARG_VAL (ArgInt ''relative_paths'') 0,
     row ''no-R'' '''' POPT_ARG_VAL (ArgInt ''relative_paths'') 0,
     row ''implied-dirs'' '''' POPT_ARG_VAL (ArgInt ''implied_dirs'') 1,
     row ''no-implied-dirs'' '''' POPT_ARG_VAL (ArgInt ''implied_dirs'') 0,
     row ''i-d'' '''' POPT_ARG_VAL (ArgInt ''implied_dirs'') 1,
     row ''no-i-d'' '''' POPT_ARG_VAL (ArgInt ''implied_dirs'') 0,
     row ''chmod'' '''' POPT_ARG_STRING ArgNil OPT_CHMOD,
     row ''ignore-times'' ''I'' POPT_ARG_NONE (ArgInt ''ignore_times'') 0,
     row ''size-only'' '''' POPT_ARG_NONE (ArgInt ''size_only'') 0,
     row ''one-file-system'' ''x'' POPT_ARG_NONE ArgNil (char_code (CHR ''x'')),
     row ''no-one-file-system'' '''' POPT_ARG_VAL (ArgInt ''one_file_system'') 0,
     row ''no-x'' '''' POPT_ARG_VAL (ArgInt ''one_file_system'') 0,
     row ''update'' ''u'' POPT_ARG_NONE (ArgInt ''update_only'') 0,
     row ''existing'' '''' POPT_ARG_NONE (ArgInt ''ignore_non_existing'') 0,
     row ''ignore-non-existing'' '''' POPT_ARG_NONE (ArgInt ''ignore_non_existing'') 0,
     row ''ignore-existing'' '''' POPT_ARG_NONE (ArgInt ''ignore_existing'') 0,
     row ''max-size'' '''' POPT_ARG_STRING (ArgString ''max_size_arg'') OPT_MAX_SIZE,
     row ''min-size'' '''' POPT_ARG_STRING (ArgString ''min_size_arg'') OPT_MIN_SIZE,
     row ''max-alloc'' '''' POPT_ARG_STRING (ArgString ''max_alloc_arg'') 0,
     row ''sparse'' ''S'' POPT_ARG_VAL (ArgInt ''sparse_files'') 1,
     row ''no-sparse'' '''' POPT_ARG_VAL (ArgInt ''sparse_files'') 0,
     row ''no-S'' '''' POPT_ARG_VAL (ArgInt ''sparse_files'') 0,
     row ''preallocate'' '''' POPT_ARG_NONE (ArgInt ''preallocate_files'') 0,
     row ''inplace'' '''' POPT_ARG_VAL (ArgInt ''inplace'') 1,
     row ''no-inplace'' '''' POPT_ARG_VAL (ArgInt ''inplace'') 0,
     row ''append'' '''' POPT_ARG_NONE ArgNil OPT_APPEND,
     row ''append-verify'' '''' POPT_ARG_VAL (ArgInt ''append_mode'') 2,
     row ''no-append'' '''' POPT_ARG_VAL (ArgInt ''append_mode'') 0,
     row ''del'' '''' POPT_ARG_NONE (ArgInt ''delete_during'') 0,
     row ''delete'' '''' POPT_ARG_NONE (ArgInt ''delete_mode'') 0,
     row ''delete-before'' '''' POPT_ARG_NONE (ArgInt ''delete_before'') 0,
     row ''delete-during'' '''' POPT_ARG_VAL (ArgInt ''delete_during'') 1,
     row ''delete-delay'' '''' POPT_ARG_VAL (ArgInt ''delete_during'') 2,
     row ''delete-after'' '''' POPT_ARG_NONE (ArgInt ''delete_after'') 0,
     row ''delete-excluded'' '''' POPT_ARG_NONE (ArgInt ''delete_excluded'') 0,
     row ''delete-missing-args'' '''' POPT_BIT_SET (ArgInt ''missing_args'') 2,
     row ''ignore-missing-args'' '''' POPT_BIT_SET (ArgInt ''missing_args'') 1,
     row ''remove-sent-files'' '''' POPT_ARG_VAL (ArgInt ''remove_source_files'') 2,
     row ''remove-source-files'' '''' POPT_ARG_VAL (ArgInt ''remove_source_files'') 1,
     row ''force'' '''' POPT_ARG_VAL (ArgInt ''force_delete'') 1,
     row ''no-force'' '''' POPT_ARG_VAL (ArgInt ''force_delete'') 0,
     row ''ignore-errors'' '''' POPT_ARG_VAL (ArgInt ''ignore_errors'') 1,
     row ''no-ignore-errors'' '''' POPT_ARG_VAL (ArgInt ''ignore_errors'') 0,
     row ''max-delete'' '''' POPT_ARG_INT (ArgInt ''max_delete'') 0,
     row '''' ''F'' POPT_ARG_NONE ArgNil (char_code (CHR ''F'')),
     row ''filter'' ''f'' POPT_ARG_STRING ArgNil OPT_FILTER,
     row ''exclude'' '''' POPT_ARG_STRING ArgNil OPT_EXCLUDE,
     row ''include'' '''' POPT_ARG_STRING ArgNil OPT_INCLUDE,
     row ''exclude-from'' '''' POPT_ARG_STRING ArgNil OPT_EXCLUDE_FROM]"

definition options_table_2 :: "poptOption list" where
  "options_table_2 =
    [row ''include-from'' '''' POPT_ARG_STRING ArgNil OPT_INCLUDE_FROM,
     row ''cvs-exclude'' ''C'' POPT_ARG_NONE (ArgInt ''cvs_exclude'') 0,
     row ''whole-file'' ''W'' POPT_ARG_VAL (ArgInt ''whole_file'') 1,
     row ''no-whole-file'' '''' POPT_ARG_VAL (ArgInt ''whole_file'') 0,
     row ''no-W'' '''' POPT_ARG_VAL (ArgInt ''whole_file'') 0,
     row ''checksum'' ''c'' POPT_ARG_VAL (ArgInt ''always_checksum'') 1,
     row ''no-checksum'' '''' POPT_ARG_VAL (ArgInt ''always_checksum'') 0,
     row ''no-c'' '''' POPT_ARG_VAL (ArgInt ''always_checksum'') 0,
     row ''checksum-choice'' '''' POPT_ARG_STRING (ArgString ''checksum_choice'') 0,
     row ''cc'' '''' POPT_ARG_STRING (ArgString ''checksum_choice'') 0,
     row ''block-size'' ''B'' POPT_ARG_STRING ArgNil OPT_BLOCK_SIZE,
     row ''compare-dest'' '''' POPT_ARG_STRING ArgNil OPT_COMPARE_DEST,
     row ''copy-dest'' '''' POPT_ARG_STRING ArgNil OPT_COPY_DEST,
     row ''link-dest'' '''' POPT_ARG_STRING ArgNil OPT_LINK_DEST,
     row ''fuzzy'' ''y'' POPT_ARG_NONE ArgNil (char_code (CHR ''y'')),
     row ''no-fuzzy'' '''' POPT_ARG_VAL (ArgInt ''fuzzy_basis'') 0,
     row ''no-y'' '''' POPT_ARG_VAL (ArgInt ''fuzzy_basis'') 0,
     row ''compress'' ''z'' POPT_ARG_NONE ArgNil (char_code (CHR ''z'')),
     row ''old-compress'' '''' POPT_ARG_NONE ArgNil OPT_OLD_COMPRESS,
     row ''new-compress'' '''' POPT_ARG_NONE ArgNil OPT_NEW_COMPRESS,
     row ''no-compress'' '''' POPT_ARG_NONE ArgNil OPT_NO_COMPRESS,
     row ''no-z'' '''' POPT_ARG_NONE ArgNil OPT_NO_COMPRESS,
     row ''compress-choice'' '''' POPT_ARG_STRING (ArgString ''compress_choice'') 0,
     row ''zc'' '''' POPT_ARG_STRING (ArgString ''compress_choice'') 0,
     row ''skip-compress'' '''' POPT_ARG_STRING (ArgString ''skip_compress'') 0,
     row ''compress-level'' '''' POPT_ARG_INT (ArgInt ''do_compression_level'') 0,
     row ''zl'' '''' POPT_ARG_INT (ArgInt ''do_compression_level'') 0,
     row '''' ''P'' POPT_ARG_NONE ArgNil (char_code (CHR ''P'')),
     row ''progress'' '''' POPT_ARG_VAL (ArgInt ''do_progress'') 1,
     row ''no-progress'' '''' POPT_ARG_VAL (ArgInt ''do_progress'') 0,
     row ''partial'' '''' POPT_ARG_VAL (ArgInt ''keep_partial'') 1,
     row ''no-partial'' '''' POPT_ARG_VAL (ArgInt ''keep_partial'') 0,
     row ''partial-dir'' '''' POPT_ARG_STRING (ArgString ''partial_dir'') 0,
     row ''delay-updates'' '''' POPT_ARG_VAL (ArgInt ''delay_updates'') 1,
     row ''no-delay-updates'' '''' POPT_ARG_VAL (ArgInt ''delay_updates'') 0,
     row ''prune-empty-dirs'' ''m'' POPT_ARG_VAL (ArgInt ''prune_empty_dirs'') 1,
     row ''no-prune-empty-dirs'' '''' POPT_ARG_VAL (ArgInt ''prune_empty_dirs'') 0,
     row ''no-m'' '''' POPT_ARG_VAL (ArgInt ''prune_empty_dirs'') 0,
     row ''log-file'' '''' POPT_ARG_STRING (ArgString ''logfile_name'') 0,
     row ''log-file-format'' '''' POPT_ARG_STRING (ArgString ''logfile_format'') 0,
     row ''out-format'' '''' POPT_ARG_STRING (ArgString ''stdout_format'') 0,
     row ''log-format'' '''' POPT_ARG_STRING (ArgString ''stdout_format'') 0,
     row ''itemize-changes'' ''i'' POPT_ARG_NONE ArgNil (char_code (CHR ''i'')),
     row ''no-itemize-changes'' '''' POPT_ARG_VAL (ArgInt ''itemize_changes'') 0,
     row ''no-i'' '''' POPT_ARG_VAL (ArgInt ''itemize_changes'') 0,
     row ''bwlimit'' '''' POPT_ARG_STRING (ArgString ''bwlimit_arg'') OPT_BWLIMIT,
     row ''no-bwlimit'' '''' POPT_ARG_VAL (ArgInt ''bwlimit'') 0,
     row ''backup'' ''b'' POPT_ARG_VAL (ArgInt ''make_backups'') 1,
     row ''no-backup'' '''' POPT_ARG_VAL (ArgInt ''make_backups'') 0,
     row ''backup-dir'' '''' POPT_ARG_STRING (ArgString ''backup_dir'') 0,
     row ''suffix'' '''' POPT_ARG_STRING (ArgString ''backup_suffix'') 0,
     row ''list-only'' '''' POPT_ARG_VAL (ArgInt ''list_only'') 2,
     row ''read-batch'' '''' POPT_ARG_STRING (ArgString ''batch_name'') OPT_READ_BATCH,
     row ''write-batch'' '''' POPT_ARG_STRING (ArgString ''batch_name'') OPT_WRITE_BATCH,
     row ''only-write-batch'' '''' POPT_ARG_STRING (ArgString ''batch_name'') OPT_ONLY_WRITE_BATCH,
     row ''files-from'' '''' POPT_ARG_STRING (ArgString ''files_from'') 0,
     row ''from0'' ''0'' POPT_ARG_VAL (ArgInt ''eol_nulls'') 1,
     row ''no-from0'' '''' POPT_ARG_VAL (ArgInt ''eol_nulls'') 0,
     row ''old-args'' '''' POPT_ARG_NONE ArgNil OPT_OLD_ARGS,
     row ''no-old-args'' '''' POPT_ARG_VAL (ArgInt ''old_style_args'') 0,
     row ''secluded-args'' ''s'' POPT_ARG_VAL (ArgInt ''protect_args'') 1,
     row ''no-secluded-args'' '''' POPT_ARG_VAL (ArgInt ''protect_args'') 0,
     row ''protect-args'' '''' POPT_ARG_VAL (ArgInt ''protect_args'') 1,
     row ''no-protect-args'' '''' POPT_ARG_VAL (ArgInt ''protect_args'') 0,
     row ''no-s'' '''' POPT_ARG_VAL (ArgInt ''protect_args'') 0,
     row ''trust-sender'' '''' POPT_ARG_VAL (ArgInt ''trust_sender'') 1,
     row ''numeric-ids'' '''' POPT_ARG_VAL (ArgInt ''numeric_ids'') 1,
     row ''no-numeric-ids'' '''' POPT_ARG_VAL (ArgInt ''numeric_ids'') 0,
     row ''usermap'' '''' POPT_ARG_STRING ArgNil OPT_USERMAP,
     row ''groupmap'' '''' POPT_ARG_STRING ArgNil OPT_GROUPMAP,
     row ''chown'' '''' POPT_ARG_STRING ArgNil OPT_CHOWN,
     row ''timeout'' '''' POPT_ARG_INT (ArgInt ''io_timeout'') 0,
     row ''no-timeout'' '''' POPT_ARG_VAL (ArgInt ''io_timeout'') 0,
     row ''contimeout'' '''' POPT_ARG_INT (ArgInt ''connect_timeout'') 0,
     row ''no-contimeout'' '''' POPT_ARG_VAL (ArgInt ''connect_timeout'') 0,
     row ''fsync'' '''' POPT_ARG_NONE (ArgInt ''do_fsync'') 0,
     row ''stop-after'' '''' POPT_ARG_STRING ArgNil OPT_STOP_AFTER,
     row ''time-limit'' '''' POPT_ARG_STRING ArgNil OPT_STOP_AFTER,
     row ''stop-at'' '''' POPT_ARG_STRING ArgNil OPT_STOP_AT,
     row ''rsh'' ''e'' POPT_ARG_STRING (ArgString ''shell_cmd'') 0,
     row ''rsync-path'' '''' POPT_ARG_STRING (ArgString ''rsync_path'') 0,
     row ''temp-dir'' ''T'' POPT_ARG_STRING (ArgString ''tmpdir'') 0,
     row ''iconv'' '''' POPT_ARG_STRING (ArgString ''iconv_opt'') 0,
     row ''no-iconv'' '''' POPT_ARG_NONE ArgNil OPT_NO_ICONV,
     row ''ipv4'' ''4'' POPT_ARG_VAL (ArgInt ''default_af_hint'') AF_INET,
     row ''ipv6'' ''6'' POPT_ARG_VAL (ArgInt ''default_af_hint'') AF_INET6,
     row ''8-bit-output'' ''8'' POPT_ARG_VAL (ArgInt ''allow_8bit_chars'') 1,
     row ''no-8-bit-output'' '''' POPT_ARG_VAL (ArgInt ''allow_8bit_chars'') 0,
     row ''no-8'' '''' POPT_ARG_VAL (ArgInt ''allow_8bit_chars'') 0,
     row ''mkpath'' '''' POPT_ARG_VAL (ArgInt ''mkpath_dest_arg'') 1,
     row ''no-mkpath'' '''' POPT_ARG_VAL (ArgInt ''mkpath_dest_arg'') 0,
     row ''qsort'' '''' POPT_ARG_NONE (ArgInt ''use_qsort'') 0,
     row ''copy-as'' '''' POPT_ARG_STRING (ArgString ''copy_as'') 0,
     row ''address'' '''' POPT_ARG_STRING (ArgString ''bind_address'') 0,
     row ''port'' '''' POPT_ARG_INT (ArgInt ''rsync_port'') 0,
     row ''sockopts'' '''' POPT_ARG_STRING (ArgString ''sockopts'') 0,
     row ''password-file'' '''' POPT_ARG_STRING (ArgString ''password_file'') 0,
     row ''early-input'' '''' POPT_ARG_STRING (ArgString ''early_input_file'') 0,
     row ''blocking-io'' '''' POPT_ARG_VAL (ArgInt ''blocking_io'') 1,
     row ''no-blocking-io'' '''' POPT_ARG_VAL (ArgInt ''blocking_io'') 0,
     row ''outbuf'' '''' POPT_ARG_STRING (ArgString ''outbuf_mode'') 0,
     row ''remote-option'' ''M'' POPT_ARG_STRING ArgNil (char_code (CHR ''M'')),
     row ''protocol'' '''' POPT_ARG_INT (ArgInt ''protocol_version'') 0,
     row ''checksum-seed'' '''' POPT_ARG_INT (ArgInt ''checksum_seed'') 0,
     row ''server'' '''' POPT_ARG_NONE ArgNil OPT_SERVER,
     row ''sender'' '''' POPT_ARG_NONE ArgNil OPT_SENDER,
     row ''config'' '''' POPT_ARG_STRING ArgNil OPT_DAEMON,
     row ''daemon'' '''' POPT_ARG_NONE ArgNil OPT_DAEMON,
     row ''dparam'' '''' POPT_ARG_STRING ArgNil OPT_DAEMON,
     row ''detach'' '''' POPT_ARG_NONE ArgNil OPT_DAEMON,
     row ''no-detach'' '''' POPT_ARG_NONE ArgNil OPT_DAEMON]"

definition options_table :: "poptOption list" where
  "options_table = options_table_1 @ options_table_2"

section \<open>Verbosity words\<close>

record output_type =
  word_name :: string
  where_ :: int

definition W_CLI :: int where "W_CLI = 1"
definition W_SRV :: int where "W_SRV = 2"
definition W_SND :: int where "W_SND = 4"
definition W_REC :: int where "W_REC = 8"

definition infoWords :: "output_type list" where
  "infoWords =
    [\<lparr>word_name = ''BACKUP'', where_ = W_REC\<rparr>, \<lparr>word_name = ''COPY'', where_ = W_REC\<rparr>,
     \<lparr>word_name = ''DEL'', where_ = W_REC\<rparr>, \<lparr>word_name = ''FLIST'', where_ = W_CLI\<rparr>,
     \<lparr>word_name = ''MISC'', where_ = W_SND + W_REC\<rparr>, \<lparr>word_name = ''MOUNT'', where_ = W_SND + W_REC\<rparr>,
     \<lparr>word_name = ''NAME'', where_ = W_SND + W_REC\<rparr>, \<lparr>word_name = ''NONREG'', where_ = W_REC\<rparr>,
     \<lparr>word_name = ''PROGRESS'', where_ = W_CLI\<rparr>, \<lparr>word_name = ''REMOVE'', where_ = W_SND\<rparr>,
     \<lparr>word_name = ''SKIP'', where_ = W_REC\<rparr>, \<lparr>word_name = ''STATS'', where_ = W_CLI + W_SRV\<rparr>,
     \<lparr>word_name = ''SYMSAFE'', where_ = W_SND + W_REC\<rparr>]"

fun split_comma :: "string \<Rightarrow> string list" where
  "split_comma [] = [[]]"
| "split_comma (c # cs) =
     (if c = CHR '','' then [] # split_comma cs
      else (case split_comma cs of [] \<Rightarrow> [[c]] | w # ws \<Rightarrow> (c # w) # ws))"

definition is_space :: "char \<Rightarrow> bool" where
  "is_space c \<longleftrightarrow> char_code c \<in> {9, 10, 11, 12, 13, 32}"

definition is_digit :: "char \<Rightarrow> bool" where
  "is_digit c \<longleftrightarrow> 48 \<le> char_code c \<and> char_code c \<le> 57"

definition ToLower :: "string \<Rightarrow> int list" where
  "ToLower s = map lower s"

text \<open>\<open>strconv.Atoi\<close> on a string of digits.\<close>

definition Atoi :: "string \<Rightarrow> int option" where
  "Atoi s = (case parse_digits 10 0 s of
     None \<Rightarrow> None | Some n \<Rightarrow> if n \<ge> 2 ^ 63 then None else Some n)"

text \<open>The loop over the words; without \<open>all\<close> it stops at the first word that fits.\<close>

fun set_levels :: "output_type list \<Rightarrow> nat \<Rightarrow> int list \<Rightarrow> bool \<Rightarrow> u16 \<Rightarrow> u16 list \<Rightarrow> u16 list" where
  "set_levels [] j trimmed allw lev levels = levels"
| "set_levels (w # ws) j trimmed allw lev levels =
     (if ToLower (word_name w) = trimmed \<or> allw then
        (if allw then set_levels ws (j + 1) trimmed allw lev (levels[j := lev]) else levels[j := lev])
      else set_levels ws (j + 1) trimmed allw lev levels)"

definition output_word :: "output_type list \<Rightarrow> string \<Rightarrow> u16 list \<Rightarrow> u16 list" where
  "output_word words s levels =
     (if \<forall>c \<in> set s. is_space c then levels
      else
        (let trimmed = rev (dropWhile is_digit (rev s));
             digits = drop (length trimmed) s;
             lev = (if digits \<noteq> [] then Atoi digits else Some 1)
         in case lev of
              None \<Rightarrow> levels
            | Some lev \<Rightarrow>
                (let lev = (if ToLower trimmed = ToLower ''none'' then 0 else lev);
                     allw = (ToLower trimmed = ToLower ''all'')
                 in set_levels words 0 (ToLower trimmed) allw (word_of_int lev) levels)))"

definition parseOutputWords :: "output_type list \<Rightarrow> u16 list \<Rightarrow> string \<Rightarrow> u16 list" where
  "parseOutputWords words levels str = fold (output_word words) (split_comma str) levels"

definition infoVerbosity :: "string list" where
  "infoVerbosity = [''NONREG'', ''COPY,DEL,FLIST,MISC,NAME,STATS,SYMSAFE'', ''BACKUP,MISC2,MOUNT,NAME2,REMOVE,SKIP'']"

definition setOutputVerbosity :: "Options \<Rightarrow> Options" where
  "setOutputVerbosity o' =
     o'\<lparr>info := fold (\<lambda>j levels. if j < length infoVerbosity
                              then parseOutputWords infoWords levels (infoVerbosity ! j) else levels)
               [0..<nat (ints o' ''verbose'' + 1)] (info o')\<rparr>"

section \<open>ParseArguments\<close>

text \<open>The special cases of the main loop, all but the switch to daemon mode.\<close>

definition not_implemented :: "int list" where
  "not_implemented =
     [OPT_FILTER, OPT_EXCLUDE, OPT_INCLUDE, OPT_INCLUDE_FROM, OPT_EXCLUDE_FROM,
      char_code (CHR ''y''), char_code (CHR ''F''), OPT_OLD_ARGS, char_code (CHR ''M''),
      OPT_WRITE_BATCH, OPT_ONLY_WRITE_BATCH, OPT_READ_BATCH, OPT_BLOCK_SIZE, OPT_MAX_SIZE,
      OPT_MIN_SIZE, OPT_BWLIMIT, OPT_APPEND, OPT_LINK_DEST, OPT_COPY_DEST, OPT_COMPARE_DEST,
      OPT_CHMOD, OPT_USERMAP, OPT_GROUPMAP, OPT_CHOWN, OPT_STOP_AFTER, OPT_STOP_AT, OPT_STDERR]"

definition archive :: "Options \<Rightarrow> Options" where
  "archive o' =
     (let o1 = (if ints o' ''recurse'' = 0 then opt_set ''recurse'' 1 o' else o')
      in opt_set ''preserve_specials'' 1 (opt_set ''preserve_devices'' 1 (opt_set ''preserve_uid'' 1
         (opt_set ''preserve_gid'' 1 (opt_set ''preserve_mtimes'' 1 (opt_set ''preserve_perms'' 1
         (opt_set ''preserve_links'' 1 o1)))))))"

definition special_opt :: "int \<Rightarrow> Options \<Rightarrow> opt_err + Options" where
  "special_opt v o' =
     (if v = char_code (CHR ''V'') then Inr o'
      else if v = OPT_SERVER then Inr (opt_set ''am_server'' 1 o')
      else if v = OPT_SENDER then
        (if ints o' ''am_server'' = 0 then Inl (OptError ''--sender only allowed with --server'')
         else Inr (opt_set ''am_sender'' 1 o'))
      else if v \<in> set not_implemented then Inl NotYetImplemented
      else if v = char_code (CHR ''a'') then Inr (archive o')
      else if v = char_code (CHR ''D'') then
        Inr (opt_set ''preserve_specials'' 1 (opt_set ''preserve_devices'' 1 o'))
      else if v = OPT_NO_D then
        Inr (opt_set ''preserve_specials'' 0 (opt_set ''preserve_devices'' 0 o'))
      else if v = char_code (CHR ''h'') then Inr (opt_inc ''human_readable'' o')
      else if v = char_code (CHR ''H'') then Inr (opt_set ''preserve_hard_links'' 1 o')
      else if v = char_code (CHR ''i'') then Inr (opt_inc ''itemize_changes'' o')
      else if v = char_code (CHR ''U'') then
        (let o1 = opt_inc ''preserve_atimes'' o'
         in Inr (if ints o1 ''preserve_atimes'' > 1 then opt_set ''open_noatime'' 1 o1 else o1))
      else if v = char_code (CHR ''v'') then Inr (opt_inc ''verbose'' o')
      else if v = char_code (CHR ''q'') then Inr (opt_inc ''quiet'' o')
      else if v = char_code (CHR ''x'') then Inr (opt_inc ''one_file_system'' o')
      else if v = char_code (CHR ''P'') then
        Inr (opt_set ''keep_partial'' 1 (opt_set ''do_progress'' 1 o'))
      else if v = char_code (CHR ''z'') then Inr (opt_inc ''do_compression'' o')
      else if v = OPT_OLD_COMPRESS then Inr (opt_str ''compress_choice'' ''zlib'' o')
      else if v = OPT_NEW_COMPRESS then Inr (opt_str ''compress_choice'' ''zlibx'' o')
      else if v = OPT_NO_COMPRESS then
        Inr (opt_str ''compress_choice'' [] (opt_set ''do_compression'' 0 o'))
      else if v = char_code (CHR ''A'') then Inl (OptError ''ACLs are not supported'')
      else if v = char_code (CHR ''X'') then Inr (opt_inc ''preserve_xattrs'' o')
      else Inl (OptError ''unhandled special case opt''))"

definition handle_opt :: "int \<Rightarrow> Context \<Rightarrow> opt_err + Context" where
  "handle_opt v c =
     (if v = OPT_INFO then
        (case poptGetOptArg c of (s, c') \<Rightarrow>
           Inr (c'\<lparr>opts := (opts c')\<lparr>info := parseOutputWords infoWords (info (opts c')) s\<rparr>\<rparr>))
      else if v = OPT_DEBUG then Inr (snd (poptGetOptArg c))
      else (case special_opt v (opts c) of Inl e \<Rightarrow> Inl e | Inr o' \<Rightarrow> Inr (c\<lparr>opts := o'\<rparr>)))"

lemma weight_popt_step_Some:
  assumes "popt_step c = Inr (Some v, c')" shows "v = -1 \<or> weight c' < weight c"
proof (cases "nextCharArg c = []")
  case False
  with assms weight_popt_short show ?thesis by (auto simp: popt_step_def)
next
  case nc: True
  show ?thesis
  proof (cases "args c")
    case Nil
    with nc assms show ?thesis by (simp add: popt_step_def)
  next
    case (Cons a as)
    let ?c1 = "c\<lparr>args := as\<rparr>"
    have w1: "weight ?c1 < weight c" using Cons by (simp add: weight_def)
    have ws: "weight (?c1\<lparr>nextCharArg := tl a\<rparr>) \<le> weight c" using Cons nc by (simp add: weight_def)
    have ne: "tl a \<noteq> []" if "a \<noteq> []" "hd a = CHR ''-''" "a \<noteq> ''-''" using that by (cases a) auto
    show ?thesis
      using assms Cons nc w1 ws ne weight_popt_short [of "?c1\<lparr>nextCharArg := tl a\<rparr>" "Some v" c']
        weight_popt_apply [of _ _ ?c1 "Some v" c']
      by (fastforce simp: popt_step_def Let_def cut_eq_def split: if_splits option.splits)
  qed
qed

lemma weight_poptGetNextOpt: "poptGetNextOpt c = Inr (v, c') \<Longrightarrow> v = -1 \<or> weight c' < weight c"
proof (induction c rule: poptGetNextOpt.induct)
  case (1 c)
  obtain r where r: "popt_step c = r" by blast
  show ?case
  proof (cases r)
    case (Inl e)
    with r "1.prems" show ?thesis by (subst (asm) poptGetNextOpt.simps) simp
  next
    case (Inr x)
    obtain w d where x: "x = (w, d)" by (cases x)
    show ?thesis
    proof (cases w)
      case None
      with Inr x r "1.prems" have "poptGetNextOpt d = Inr (v, c')"
        by (subst (asm) poptGetNextOpt.simps) simp
      moreover have "weight d < weight c" using weight_popt_step r Inr x None by simp
      ultimately show ?thesis using "1.IH" [of x w d] r Inr x None by force
    next
      case (Some u)
      with Inr x r "1.prems" have "u = v" "d = c'" by (subst (asm) poptGetNextOpt.simps; simp)+
      with weight_popt_step_Some r Inr x Some show ?thesis by simp
    qed
  qed
qed

lemma weight_opts [simp]: "weight (c\<lparr>opts := x\<rparr>) = weight c"
  by (simp add: weight_def)

lemma weight_handle_opt: "handle_opt v c = Inr c' \<Longrightarrow> weight c' = weight c"
  by (auto simp: handle_opt_def poptGetOptArg_def weight_def split: if_splits sum.splits)

text \<open>Daemon mode: the whole command line again, with the daemon's table.\<close>

function daemon_loop :: "Context \<Rightarrow> opt_err + Context" where
  "daemon_loop c =
     (case poptGetNextOpt c of
        Inl e \<Rightarrow> Inl e
      | Inr (v, c') \<Rightarrow>
          if v = -1 then Inr c'
          else if v = char_code (CHR ''M'') then Inl NotYetImplemented
          else if v = char_code (CHR ''v'') then daemon_loop (c'\<lparr>opts := opt_inc ''verbose'' (opts c')\<rparr>)
          else Inl (OptError ''unhandled special case opt''))"
  by pat_completeness auto
termination by (relation "measure weight") (auto dest!: weight_poptGetNextOpt)

declare daemon_loop.simps [simp del]

definition parse_daemon :: "string list \<Rightarrow> bool \<Rightarrow> Options \<Rightarrow> opt_err + Context" where
  "parse_daemon argv gok o' =
     (case daemon_loop \<lparr>table = (if gok then gokrazy_table @ daemonTable else daemonTable), args = argv,
             nextCharArg = [], nextArg = [], opts = o', RemainingArgs = []\<rparr> of
        Inl e \<Rightarrow> Inl e
      | Inr c \<Rightarrow> Inr (c\<lparr>opts := opt_set ''am_daemon'' 1 (opts c)\<rparr>))"

text \<open>The main loop; the flag says that the context is that of daemon mode and is returned as it is.\<close>

function parse_loop :: "string list \<Rightarrow> bool \<Rightarrow> Context \<Rightarrow> opt_err + bool \<times> Context" where
  "parse_loop argv gok c =
     (case poptGetNextOpt c of
        Inl e \<Rightarrow> Inl e
      | Inr (v, c') \<Rightarrow>
          if v = -1 then Inr (False, c')
          else if v = OPT_DAEMON then map_sum id (Pair True) (parse_daemon argv gok (opts c'))
          else (case handle_opt v c' of Inl e \<Rightarrow> Inl e | Inr c2 \<Rightarrow> parse_loop argv gok c2))"
  by pat_completeness auto
termination
  by (relation "measure (\<lambda>(argv, gok, c). weight c)")
    (auto dest!: weight_poptGetNextOpt weight_handle_opt)

declare parse_loop.simps [simp del]

text \<open>The defaults that depend on other options, in the source's order.\<close>

definition default_xfer :: "Options \<Rightarrow> Options" where
  "default_xfer o' =
     (if ints o' ''recurse'' \<noteq> 0 then opt_set ''xfer_dirs'' 1 o'
      else if ints o' ''xfer_dirs'' < 0
      then opt_set ''xfer_dirs'' (if ints o' ''list_only'' \<noteq> 0 then 1 else 0) o' else o')"

definition default_relative :: "Options \<Rightarrow> Options" where
  "default_relative o' =
     (if ints o' ''relative_paths'' < 0
      then opt_set ''relative_paths'' (if strs o' ''files_from'' \<noteq> [] then 1 else 0) o' else o')"

definition default_implied :: "Options \<Rightarrow> Options" where
  "default_implied o' = (if ints o' ''relative_paths'' = 0 then opt_set ''implied_dirs'' 0 o' else o')"

definition default_missing :: "Options \<Rightarrow> Options" where
  "default_missing o' = (if ints o' ''missing_args'' = 3 then opt_set ''missing_args'' 2 o' else o')"

definition default_suffix :: "Options \<Rightarrow> Options" where
  "default_suffix o' =
     (if strs o' ''backup_suffix'' = [] \<and> strs o' ''backup_dir'' = []
      then opt_str ''backup_suffix'' ''~'' o' else o')"

definition default_backups :: "Options \<Rightarrow> Options" where
  "default_backups o' = (if strs o' ''backup_dir'' \<noteq> [] then opt_set ''make_backups'' 1 o' else o')"

definition default_name :: "Options \<Rightarrow> Options" where
  "default_name o' =
     (if ints o' ''do_progress'' \<noteq> 0 \<and> info o' ! INFO_NAME = 0
      then o'\<lparr>info := (info o')[INFO_NAME := 1]\<rparr> else o')"

definition default_format :: "Options \<Rightarrow> Options" where
  "default_format o' =
     (if info o' ! INFO_NAME \<ge> 1 \<and> strs o' ''stdout_format'' = []
      then opt_str ''stdout_format'' ''%n%L'' o' else o')"

definition set_defaults :: "Options \<Rightarrow> Options" where
  "set_defaults o' =
     default_format (default_name (default_backups (default_suffix (default_missing
       (default_implied (default_relative (default_xfer (setOutputVerbosity o'))))))))"

definition ParseArguments :: "string list \<Rightarrow> bool \<Rightarrow> opt_err + Context" where
  "ParseArguments argv gok =
     (case parse_loop argv gok
             \<lparr>table = (if gok then gokrazy_table @ options_table else options_table), args = argv,
              nextCharArg = [], nextArg = [], opts = NewOptions, RemainingArgs = []\<rparr> of
        Inl e \<Rightarrow> Inl e
      | Inr (daemon, c) \<Rightarrow> Inr (if daemon then c else c\<lparr>opts := set_defaults (opts c)\<rparr>))"

end
