(* ===== verification/Wire.thy ===== *)
theory Wire
  imports Prelude
begin

text \<open>
  rsyncwire/wire.go: the byte-level connection.  A connection (\<open>Conn\<close>) is what its reader has
  still to deliver, how many bytes were taken from it (\<open>CountingReader\<close>), and the log of the
  calls made to its \<open>io.Writer\<close>, with the room the transport has left before a write fails.
  The first part gives the flat reads and writes that the protocol code uses; the second part
  the multiplexing codec; the last part the readers and writers underneath, as interfaces, with
  the proof that the flat view is what they compute.
\<close>

section \<open>Readers and connections\<close>

record reader =
  rx :: bytes
  nread :: nat

record conn = reader +
  tx :: "bytes list"
  room :: "nat option"

definition advance :: "nat \<Rightarrow> 'z reader_scheme \<Rightarrow> 'z reader_scheme" where
  "advance n r = r\<lparr>rx := drop n (rx r), nread := nread r + n\<rparr>"

lemma rx_advance [simp]: "rx (advance n r) = drop n (rx r)"
  by (simp add: advance_def)

lemma nread_advance [simp]: "nread (advance n r) = nread r + n"
  by (simp add: advance_def)

lemma tx_advance [simp]: "tx (advance n c) = tx c"
  by (simp add: advance_def)

lemma room_advance [simp]: "room (advance n c) = room c"
  by (simp add: advance_def)

lemma advance_advance [simp]: "advance m (advance n r) = advance (n + m) r"
  by (simp add: advance_def add.commute add.left_commute)

lemma advance_0 [simp]: "advance 0 r = r"
  by (simp add: advance_def)

text \<open>
  \<open>io.ReadFull\<close> into a buffer of \<open>n\<close> bytes: all of them, or EOF when there is nothing, or
  ErrUnexpectedEOF when the stream ends in between (the bytes read so far are gone).
\<close>

definition ReadFull :: "nat \<Rightarrow> ('z reader_scheme, bytes) io" where
  "ReadFull n r =
     (if n \<le> length (rx r) then (Inr (take n (rx r)), advance n r)
      else (Inl (if rx r = [] then EOF else ErrUnexpectedEOF), advance (length (rx r)) r))"

text \<open>\<open>make([]byte, n)\<close> followed by \<open>io.ReadFull\<close>: a negative length panics.\<close>

definition make_ReadFull :: "int \<Rightarrow> ('z reader_scheme, bytes) io" where
  "make_ReadFull n =
     (if n < 0 then fail (Panic ''makeslice: len out of range'') else ReadFull (nat n))"

definition ReadByte :: "('z reader_scheme, byte) io" where
  "ReadByte = ebind (ReadFull 1) (\<lambda>buf. ret (hd buf))"

definition ReadInt32 :: "('z reader_scheme, i32) io" where
  "ReadInt32 = ebind (ReadFull 4) (\<lambda>buf. ret (le_dec buf))"

definition ReadInt64 :: "('z reader_scheme, i64) io" where
  "ReadInt64 =
     ebind ReadInt32 (\<lambda>data.
       if data \<noteq> -1 then ret (scast data)
       else ebind (ReadFull 8) (\<lambda>buf. ret (le_dec buf)))"

section \<open>Writing\<close>

definition conn_Write :: "bytes \<Rightarrow> ('z conn_scheme, unit) io" where
  "conn_Write p c =
     (case room c of
        None \<Rightarrow> (Inr (), c\<lparr>tx := tx c @ [p]\<rparr>)
      | Some k \<Rightarrow>
          if length p \<le> k then (Inr (), c\<lparr>tx := tx c @ [p], room := Some (k - length p)\<rparr>)
          else (Inl ErrWrite, c\<lparr>tx := tx c @ [take k p], room := Some 0\<rparr>))"

definition WriteByte :: "byte \<Rightarrow> ('z conn_scheme, unit) io" where
  "WriteByte data = conn_Write [data]"

definition WriteInt32 :: "i32 \<Rightarrow> ('z conn_scheme, unit) io" where
  "WriteInt32 data = conn_Write (le_enc 4 data)"

definition WriteInt64 :: "i64 \<Rightarrow> ('z conn_scheme, unit) io" where
  "WriteInt64 data =
     (if sint data \<le> 0x7FFFFFFF \<and> sint data \<ge> 0 then WriteInt32 (ucast data)
      else ebind (WriteInt32 (-1)) (\<lambda>_. conn_Write (le_enc 8 data)))"

definition WriteString :: "bytes \<Rightarrow> ('z conn_scheme, unit) io" where
  "WriteString data = conn_Write data"

text \<open>The bytes handed to the writer so far, and a connection after one more successful write.\<close>

definition sent :: "'z conn_scheme \<Rightarrow> bytes" where
  "sent c = concat (tx c)"

definition emit :: "bytes \<Rightarrow> 'z conn_scheme \<Rightarrow> 'z conn_scheme" where
  "emit p c = c\<lparr>tx := tx c @ [p]\<rparr>"

lemma emit_simps [simp]:
  "tx (emit p c) = tx c @ [p]" "rx (emit p c) = rx c" "room (emit p c) = room c"
  "nread (emit p c) = nread c" "sent (emit p c) = sent c @ p"
  by (simp_all add: emit_def sent_def)

lemma sent_advance [simp]: "sent (advance n c) = sent c"
  by (simp add: sent_def)

lemma advance_emit: "advance n (emit p c) = emit p (advance n c)"
  by (simp add: emit_def advance_def)

lemma conn_Write_ok [io_simps]: "room c = None \<Longrightarrow> conn_Write p c = (Inr (), emit p c)"
  by (simp add: conn_Write_def emit_def)

lemma WriteInt32_ok [io_simps]: "room c = None \<Longrightarrow> WriteInt32 x c = (Inr (), emit (le_enc 4 x) c)"
  by (simp add: WriteInt32_def conn_Write_ok)

lemma WriteString_ok [io_simps]: "room c = None \<Longrightarrow> WriteString p c = (Inr (), emit p c)"
  by (simp add: WriteString_def conn_Write_ok)

text \<open>\<open>wrote c p d\<close>: from \<open>c\<close> to \<open>d\<close> the bytes \<open>p\<close> were handed to a transport that takes everything.\<close>

definition wrote :: "'z conn_scheme \<Rightarrow> bytes \<Rightarrow> 'z conn_scheme \<Rightarrow> bool" where
  "wrote c p d \<longleftrightarrow>
     room c = None \<and> room d = None \<and> sent d = sent c @ p \<and> rx d = rx c \<and> nread d = nread c"

lemma wrote_refl: "room c = None \<Longrightarrow> wrote c [] c"
  by (simp add: wrote_def)

lemma wrote_emit: "room c = None \<Longrightarrow> wrote c p (emit p c)"
  by (simp add: wrote_def)

lemma wrote_trans: "wrote c p d \<Longrightarrow> wrote d q e \<Longrightarrow> wrote c (p @ q) e"
  by (simp add: wrote_def)

lemma wrote_room: "wrote c p d \<Longrightarrow> room d = None"
  by (simp add: wrote_def)

text \<open>A write never touches the read side, and it succeeds only by logging all of its bytes.\<close>

lemma conn_Write_frame: "conn_Write p c = (res, c') \<Longrightarrow> rx c' = rx c \<and> nread c' = nread c"
  by (auto simp: conn_Write_def split: option.splits if_splits)

lemma conn_Write_Inr: "conn_Write p c = (Inr u, c') \<Longrightarrow> tx c' = tx c @ [p] \<and> sent c' = sent c @ p"
  by (auto simp: conn_Write_def sent_def split: option.splits if_splits)

lemma conn_Write_room: "conn_Write p c = (Inl e, c') \<Longrightarrow> e = ErrWrite \<and> room c \<noteq> None"
  by (auto simp: conn_Write_def split: option.splits if_splits)

section \<open>Buffer\<close>

text \<open>\<open>Buffer\<close> is a \<open>bytes.Buffer\<close>, whose writes never fail: each operation appends.\<close>

definition Buffer_WriteByte :: "byte \<Rightarrow> bytes \<Rightarrow> bytes" where
  "Buffer_WriteByte data b = b @ [data]"

definition Buffer_WriteInt32 :: "i32 \<Rightarrow> bytes \<Rightarrow> bytes" where
  "Buffer_WriteInt32 data b = b @ le_enc 4 data"

definition Buffer_WriteInt64 :: "i64 \<Rightarrow> bytes \<Rightarrow> bytes" where
  "Buffer_WriteInt64 data b =
     (if sint data \<le> 0x7FFFFFFF \<and> sint data \<ge> 0 then Buffer_WriteInt32 (ucast data) b
      else Buffer_WriteInt32 (-1) b @ le_enc 8 data)"

definition Buffer_WriteString :: "bytes \<Rightarrow> bytes \<Rightarrow> bytes" where
  "Buffer_WriteString data b = b @ data"

lemmas Buffer_defs = Buffer_WriteByte_def Buffer_WriteInt32_def Buffer_WriteInt64_def
  Buffer_WriteString_def

text \<open>The encoding of an \<open>int64\<close>: what \<open>Conn.WriteInt64\<close> and \<open>Buffer.WriteInt64\<close> both produce.\<close>

definition enc64 :: "i64 \<Rightarrow> bytes" where
  "enc64 x = Buffer_WriteInt64 x []"

lemma Buffer_WriteInt64_append: "Buffer_WriteInt64 x b = b @ enc64 x"
  by (simp add: enc64_def Buffer_defs)

lemma WriteInt64_sent:
  assumes "room c = None"
  shows "\<exists>c'. WriteInt64 x c = (Inr (), c') \<and> wrote c (enc64 x) c'"
  using assms
  by (auto simp: wrote_def WriteInt64_def enc64_def Buffer_defs ebind_def WriteInt32_ok conn_Write_ok)

section \<open>Reading what was written\<close>

lemma ReadFull_ok [io_simps]:
  "n \<le> length (rx c) \<Longrightarrow> ReadFull n c = (Inr (take n (rx c)), advance n c)"
  by (simp add: ReadFull_def)

lemma ReadFull_append [io_simps]:
  "rx c = p @ q \<Longrightarrow> length p = n \<Longrightarrow> ReadFull n c = (Inr p, advance n c)"
  by (simp add: ReadFull_def)

lemma ReadByte_Cons [io_simps]: "rx c = b # q \<Longrightarrow> ReadByte c = (Inr b, advance 1 c)"
  by (simp add: ReadByte_def ebind_def ReadFull_def)

lemma ReadInt32_enc [io_simps]: "rx c = le_enc 4 x @ q \<Longrightarrow> ReadInt32 c = (Inr x, advance 4 c)"
  by (simp add: ReadInt32_def ebind_def ReadFull_def)

lemma scast_ucast_nonneg:
  assumes "sint (x :: i64) \<le> 0x7FFFFFFF" and "sint x \<ge> 0"
  shows "scast (ucast x :: i32) = x" and "(ucast x :: i32) \<noteq> -1"
proof -
  have u: "uint x = sint x"
    using assms by (simp add: uint_sint take_bit_int_eq_self)
  have lt: "uint x < 2 ^ 31" using assms(1) by (simp add: u)
  have nn: "- (2 ^ 31) \<le> uint x" by (rule order_trans [of _ 0]) auto
  have uu: "uint (ucast x :: i32) = uint x"
    using lt by (simp add: unsigned_ucast_eq take_bit_int_eq_self)
  have ss: "sint (ucast x :: i32) = uint x"
    using lt uu nn by (simp add: sint_uint signed_take_bit_int_eq_self)
  show "scast (ucast x :: i32) = x"
    by (metis ss word_of_int_uint scast_eq)
  show "(ucast x :: i32) \<noteq> -1"
    using ss lt u assms(2) by auto
qed

lemma ReadInt64_enc64:
  assumes "rx c = enc64 x @ q"
  shows "ReadInt64 c = (Inr x, advance (length (enc64 x)) c)"
proof (cases "sint x \<le> 0x7FFFFFFF \<and> sint x \<ge> 0")
  case True
  then have "rx c = le_enc 4 (ucast x :: i32) @ q"
    using assms by (simp add: enc64_def Buffer_defs)
  with True show ?thesis
    by (simp add: ReadInt64_def ebind_def ReadInt32_enc scast_ucast_nonneg enc64_def Buffer_defs)
next
  case False
  then have "rx c = le_enc 4 (-1 :: i32) @ le_enc 8 x @ q"
    using assms by (auto simp: enc64_def Buffer_defs)
  with False show ?thesis
    by (auto simp: ReadInt64_def ebind_def ReadInt32_enc ReadFull_def enc64_def Buffer_defs)
qed

text \<open>A read consumes a prefix of the stream and leaves the write side alone.\<close>

definition reads_only :: "('z reader_scheme, 'a) io \<Rightarrow> bool" where
  "reads_only m \<longleftrightarrow> (\<forall>c. \<exists>n \<le> length (rx c). snd (m c) = advance n c)"

lemma reads_onlyD: "reads_only m \<Longrightarrow> m c = (res, c') \<Longrightarrow> \<exists>n \<le> length (rx c). c' = advance n c"
  unfolding reads_only_def by (metis snd_conv)

lemma reads_only_ret [intro, simp]: "reads_only (ret x)"
  by (auto simp: reads_only_def intro!: exI [of _ 0])

lemma reads_only_fail [intro, simp]: "reads_only (fail e)"
  by (auto simp: reads_only_def intro!: exI [of _ 0])

lemma reads_only_ebind [intro]:
  assumes "reads_only m" and "\<And>x. reads_only (f x)"
  shows "reads_only (ebind m f)"
  unfolding reads_only_def
proof
  fix c :: "'a reader_scheme"
  obtain r c1 where m: "m c = (r, c1)" by (cases "m c")
  then obtain n where n: "n \<le> length (rx c)" "c1 = advance n c"
    using assms(1) reads_onlyD by blast
  show "\<exists>n \<le> length (rx c). snd (ebind m f c) = advance n c"
  proof (cases r)
    case (Inl e)
    with m n show ?thesis by (auto simp: ebind_def)
  next
    case (Inr x)
    obtain r2 c2 where f: "f x c1 = (r2, c2)" by (cases "f x c1")
    then obtain k where "k \<le> length (rx c1)" "c2 = advance k c1"
      using assms(2) reads_onlyD by blast
    with n m f Inr show ?thesis
      by (auto simp: ebind_def intro!: exI [of _ "n + k"])
  qed
qed

lemma reads_only_if [intro]: "reads_only m \<Longrightarrow> reads_only m' \<Longrightarrow> reads_only (if b then m else m')"
  by simp

lemma reads_only_ReadFull [intro, simp]: "reads_only (ReadFull n)"
  by (auto simp: reads_only_def ReadFull_def)

lemma reads_only_make [intro, simp]: "reads_only (make_ReadFull n)"
  by (auto simp: make_ReadFull_def)

lemma reads_only_ReadByte [intro, simp]: "reads_only ReadByte"
  by (auto simp: ReadByte_def)

lemma reads_only_ReadInt32 [intro, simp]: "reads_only ReadInt32"
  by (auto simp: ReadInt32_def)

lemma reads_only_ReadInt64 [intro, simp]: "reads_only ReadInt64"
  by (auto simp: ReadInt64_def)

section \<open>Reading back, as a law of parsers\<close>

text \<open>\<open>reads m x p\<close>: where the stream begins with \<open>p\<close>, the call returns \<open>x\<close> and takes exactly \<open>p\<close>.\<close>

definition reads :: "('z reader_scheme, 'a) io \<Rightarrow> 'a \<Rightarrow> bytes \<Rightarrow> bool" where
  "reads m x p \<longleftrightarrow> (\<forall>s q. rx s = p @ q \<longrightarrow> m s = (Inr x, advance (length p) s))"

lemma readsD: "reads m x p \<Longrightarrow> rx s = p @ q \<Longrightarrow> m s = (Inr x, advance (length p) s)"
  by (simp add: reads_def)

lemma reads_ebind:
  assumes "reads m x p" and "reads (f x) y q"
  shows "reads (ebind m f) y (p @ q)"
  using assms by (auto simp: reads_def ebind_def)

lemma reads_ret: "reads (ret x) x []"
  by (simp add: reads_def)

lemma reads_map: "reads m x p \<Longrightarrow> reads (ebind m (\<lambda>x. ret (f x))) (f x) p"
  by (auto simp: reads_def ebind_def)

lemma reads_if: "reads (if b then m else m') x p"
  if "b \<Longrightarrow> reads m x p" and "\<not> b \<Longrightarrow> reads m' x p"
  using that by simp

lemma reads_ReadInt32: "reads ReadInt32 x (le_enc 4 x)"
  by (simp add: reads_def ReadInt32_enc)

lemma reads_ReadInt64: "reads ReadInt64 x (enc64 x)"
  by (simp add: reads_def ReadInt64_enc64)

lemma reads_ReadByte: "reads ReadByte b [b]"
  by (simp add: reads_def ReadByte_Cons)

lemma reads_ReadFull: "n = length p \<Longrightarrow> reads (ReadFull n) p p"
  by (simp add: reads_def ReadFull_append)

lemma reads_make: "n = int (length p) \<Longrightarrow> reads (make_ReadFull n) p p"
  by (simp add: reads_def make_ReadFull_def ReadFull_append)

end
