(* ===== verification/Checksum.thy ===== *)
theory Checksum
  imports Prelude
begin

text \<open>
  rsyncchecksum/rsyncchecksum.go: the 32-bit rolling checksum in its unrolled form, the 16-bit
  tag of the hash table, and the strong checksum.  MD4 is a third-party package: it is the
  parameter \<open>md4\<close> of every definition that hashes.  The lemmas give the closed form of the
  fast checksum, its value on an appended block, and the rolling law on which the search of
  rsyncsender/match.go rests.
\<close>

section \<open>The operations\<close>

definition Tag2 :: "u16 \<Rightarrow> u16 \<Rightarrow> u16" where
  "Tag2 s1 s2 = (s1 + s2) AND 0xFFFF"

definition Tag :: "u32 \<Rightarrow> u16" where
  "Tag fast = Tag2 (ucast (fast AND 0xFFFF)) (ucast (drop_bit 16 fast))"

text \<open>\<open>uint32(int32(val<<24) >> 24)\<close>: the shift to the right is on a signed value.\<close>

definition SignExtend :: "byte \<Rightarrow> u32" where
  "SignExtend b = (let val = ucast b :: u32 in signed_drop_bit 24 (push_bit 24 val))"

function Checksum1_blocks :: "bytes \<Rightarrow> nat \<Rightarrow> u32 \<Rightarrow> u32 \<Rightarrow> nat \<times> u32 \<times> u32" where
  "Checksum1_blocks buf i s1 s2 =
     (if int i < int (length buf) - 4 then
        (let s2' = s2 + (4 * (s1 + SignExtend (buf ! i)) + 3 * SignExtend (buf ! (i + 1)) +
                         2 * SignExtend (buf ! (i + 2)) + SignExtend (buf ! (i + 3)));
             s1' = s1 + (SignExtend (buf ! (i + 0)) + SignExtend (buf ! (i + 1)) +
                         SignExtend (buf ! (i + 2)) + SignExtend (buf ! (i + 3)))
         in Checksum1_blocks buf (i + 4) s1' s2')
      else (i, s1, s2))"
  by pat_completeness auto
termination
  by (relation "measure (\<lambda>(buf, i, s1, s2). length buf - i)") auto

function Checksum1_tail :: "bytes \<Rightarrow> nat \<Rightarrow> u32 \<Rightarrow> u32 \<Rightarrow> u32 \<times> u32" where
  "Checksum1_tail buf i s1 s2 =
     (if i < length buf then
        (let s1' = s1 + SignExtend (buf ! i) in Checksum1_tail buf (i + 1) s1' (s2 + s1'))
      else (s1, s2))"
  by pat_completeness auto
termination
  by (relation "measure (\<lambda>(buf, i, s1, s2). length buf - i)") auto

declare Checksum1_blocks.simps [simp del] Checksum1_tail.simps [simp del]

definition Checksum1 :: "bytes \<Rightarrow> u32" where
  "Checksum1 buf =
     (let (i, s1, s2) = (if length buf > 4 then Checksum1_blocks buf 0 0 0 else (0, 0, 0));
          (s1, s2) = Checksum1_tail buf i s1 s2
      in (s1 AND 0xffff) + push_bit 16 s2)"

definition Checksum2 :: "(bytes \<Rightarrow> bytes) \<Rightarrow> i32 \<Rightarrow> bytes \<Rightarrow> bytes" where
  "Checksum2 md4 seed buf = md4 (buf @ le_enc 4 seed)"

text \<open>\<open>FileChecksum\<close>: \<open>open_file\<close> is the content of the file, or nothing when it cannot be opened.\<close>

definition FileChecksum :: "(bytes \<Rightarrow> bytes) \<Rightarrow> (bytes \<Rightarrow> bytes option) \<Rightarrow> bytes \<Rightarrow> err + bytes" where
  "FileChecksum md4 open_file fn =
     (case open_file fn of None \<Rightarrow> Inl (PathError True) | Some content \<Rightarrow> Inr (md4 content))"

definition Size :: nat where "Size = 16"

section \<open>The sums behind the fast checksum\<close>

text \<open>
  \<open>sumA\<close> adds the sign-extended bytes; \<open>sumB\<close> adds the running values of \<open>sumA\<close>, so that
  each byte is weighted by its distance from the end.
\<close>

fun sumA :: "bytes \<Rightarrow> u32" where
  "sumA [] = 0"
| "sumA (b # bs) = SignExtend b + sumA bs"

fun sumB :: "bytes \<Rightarrow> u32" where
  "sumB [] = 0"
| "sumB (b # bs) = of_nat (Suc (length bs)) * SignExtend b + sumB bs"

lemma sumA_append [simp]: "sumA (xs @ ys) = sumA xs + sumA ys"
  by (induction xs) (auto simp: algebra_simps)

lemma sumB_append: "sumB (xs @ ys) = sumB xs + of_nat (length ys) * sumA xs + sumB ys"
  by (induction xs) (auto simp: algebra_simps)

lemma take_Suc_nth: "i < length xs \<Longrightarrow> take (Suc i) xs = take i xs @ [xs ! i]"
  by (rule take_Suc_conv_app_nth)

lemma take_4_nth:
  "i + 4 \<le> length xs \<Longrightarrow>
     take (i + 4) xs = take i xs @ [xs ! i, xs ! (i + 1), xs ! (i + 2), xs ! (i + 3)]"
  by (simp add: take_Suc_nth eval_nat_numeral)

lemma Checksum1_blocks_sums:
  "i \<le> length buf \<Longrightarrow> \<exists>j \<le> length buf.
     Checksum1_blocks buf i (sumA (take i buf)) (sumB (take i buf)) =
       (j, sumA (take j buf), sumB (take j buf))"
proof (induction "length buf - i" arbitrary: i rule: less_induct)
  case less
  show ?case
  proof (cases "int i < int (length buf) - 4")
    case True
    have t: "take (i + 4) buf = take i buf @ [buf ! i, buf ! (i + 1), buf ! (i + 2), buf ! (i + 3)]"
      using True by (intro take_4_nth) auto
    have "\<exists>j \<le> length buf.
      Checksum1_blocks buf (i + 4) (sumA (take (i + 4) buf)) (sumB (take (i + 4) buf)) =
        (j, sumA (take j buf), sumB (take j buf))"
      using True by (intro less.hyps) auto
    with True show ?thesis
      by (subst Checksum1_blocks.simps) (simp add: Let_def t sumB_append algebra_simps)
  next
    case False
    with less.prems show ?thesis
      by (intro exI [of _ i]) (simp add: Checksum1_blocks.simps [of buf i])
  qed
qed

lemma Checksum1_tail_sums:
  "i \<le> length buf \<Longrightarrow>
     Checksum1_tail buf i (sumA (take i buf)) (sumB (take i buf)) = (sumA buf, sumB buf)"
proof (induction "length buf - i" arbitrary: i rule: less_induct)
  case less
  show ?case
  proof (cases "i < length buf")
    case True
    have "Checksum1_tail buf (i + 1) (sumA (take (i + 1) buf)) (sumB (take (i + 1) buf)) =
      (sumA buf, sumB buf)"
      using True by (intro less.hyps) auto
    with True show ?thesis
      by (subst Checksum1_tail.simps) (simp add: Let_def take_Suc_nth sumB_append algebra_simps)
  next
    case False
    with less.prems show ?thesis by (subst Checksum1_tail.simps) simp
  qed
qed

lemma Checksum1_sums: "Checksum1 buf = (sumA buf AND 0xffff) + push_bit 16 (sumB buf)"
proof -
  obtain j where j: "j \<le> length buf"
    "(if length buf > 4 then Checksum1_blocks buf 0 0 0 else (0, 0, 0)) =
       (j, sumA (take j buf), sumB (take j buf))"
    using Checksum1_blocks_sums [of 0 buf] by (cases "length buf > 4") force+
  show ?thesis
    by (simp add: Checksum1_def j(2) Checksum1_tail_sums [OF j(1)])
qed

section \<open>Arithmetic modulo \<open>2 ^ 16\<close>\<close>

text \<open>
  Two 32-bit words agree in their low halves exactly when their multiples by \<open>2 ^ 16\<close> are the
  same, which turns the congruence into ring arithmetic.
\<close>

lemma push16: "push_bit 16 (x :: u32) = 65536 * x"
  by (simp add: push_bit_eq_mult mult.commute)

lemma take16_push: "push_bit 16 (take_bit 16 x) = push_bit 16 (x :: u32)"
  by (rule bit_word_eqI) (auto simp: bit_push_bit_iff bit_take_bit_iff)

lemma take16_mult: "65536 * take_bit 16 x = 65536 * (x :: u32)"
  using take16_push [of x] by (simp add: push16)

lemma take16_eqI:
  assumes "65536 * x = 65536 * (y :: u32)"
  shows "take_bit 16 x = take_bit 16 y"
proof (rule bit_word_eqI)
  fix i assume "i < LENGTH(32)"
  have "push_bit 16 x = push_bit 16 y" using assms by (simp add: push16)
  then have "bit (push_bit 16 x) (16 + i) = bit (push_bit 16 y) (16 + i)" by simp
  then show "bit (take_bit 16 x) i = bit (take_bit 16 y) i"
    by (auto simp: bit_push_bit_iff bit_take_bit_iff)
qed

lemma and_ffff: "(x :: u32) AND 0xffff = take_bit 16 x"
  by (simp add: take_bit_eq_mask mask_eq_exp_minus_1)

lemma drop16_take16: "drop_bit 16 (x :: u32) = take_bit 16 (drop_bit 16 x)"
  by (rule bit_word_eqI) (auto simp: bit_drop_bit_eq bit_take_bit_iff dest: bit_imp_le_length)

lemma halves_or_plus: "take_bit 16 a + push_bit 16 b = take_bit 16 a OR push_bit 16 (b :: u32)"
  by (rule disjunctive_add) (auto simp: bit_take_bit_iff bit_push_bit_iff)

lemma low_half: "take_bit 16 (take_bit 16 a + push_bit 16 (b :: u32)) = take_bit 16 a"
  unfolding halves_or_plus
  by (rule bit_word_eqI) (auto simp: bit_take_bit_iff bit_push_bit_iff bit_or_iff)

lemma high_half: "drop_bit 16 (take_bit 16 a + push_bit 16 (b :: u32)) = take_bit 16 b"
  unfolding halves_or_plus
  by (rule bit_word_eqI)
    (auto simp: bit_take_bit_iff bit_push_bit_iff bit_or_iff bit_drop_bit_eq dest: bit_imp_le_length)

lemma ucast16_ucast16: "ucast (ucast (x :: u32) :: u16) = take_bit 16 x"
  by (rule bit_word_eqI) (auto simp: bit_unsigned_iff bit_take_bit_iff dest: bit_imp_le_length)

lemma Checksum1_low: "Checksum1 buf AND 0xFFFF = take_bit 16 (sumA buf)"
  by (simp add: Checksum1_sums and_ffff low_half)

lemma Checksum1_high: "drop_bit 16 (Checksum1 buf) = take_bit 16 (sumB buf)"
  by (simp add: Checksum1_sums and_ffff high_half)

section \<open>The rolling law\<close>

text \<open>
  The pair of sums that the search keeps in \<open>s1\<close> and \<open>s2\<close> for the window \<open>w\<close>.
\<close>

definition rolls :: "u32 \<Rightarrow> u32 \<Rightarrow> bytes \<Rightarrow> bool" where
  "rolls s1 s2 w \<longleftrightarrow> s1 = take_bit 16 (sumA w) \<and> s2 = take_bit 16 (sumB w)"

lemma rolls_Checksum1: "rolls (Checksum1 w AND 0xFFFF) (drop_bit 16 (Checksum1 w)) w"
  by (simp add: rolls_def Checksum1_low Checksum1_high)

lemma take16_low: "take_bit 16 (take_bit 16 (x :: u32)) = take_bit 16 x"
  by simp

lemma rolls_sum: "rolls s1 s2 w \<Longrightarrow> (s1 AND 0xFFFF) OR push_bit 16 s2 = Checksum1 w"
  by (simp add: rolls_def Checksum1_sums and_ffff halves_or_plus take16_push)

lemma rolls_tag: "rolls s1 s2 w \<Longrightarrow> Tag2 (ucast s1) (ucast s2) = Tag (Checksum1 w)"
  by (simp add: rolls_def Tag_def Checksum1_low Checksum1_high)

text \<open>
  The update of rsyncsender/match.go: \<open>update[0]\<close> leaves, \<open>update[k]\<close> enters (if there is
  more), and the sums are cut to 16 bits.
\<close>

definition roll_update :: "u32 \<Rightarrow> u32 \<Rightarrow> nat \<Rightarrow> byte \<Rightarrow> byte option \<Rightarrow> u32 \<times> u32" where
  "roll_update s1 s2 k old new =
     (let s1 = s1 - SignExtend old;
          s2 = s2 - of_nat k * SignExtend old;
          (s1, s2) = (case new of None \<Rightarrow> (s1, s2)
                      | Some b \<Rightarrow> (s1 + SignExtend b, s2 + (s1 + SignExtend b)))
      in (ucast (ucast s1 :: u16), ucast (ucast s2 :: u16)))"

lemma roll_update_shift:
  assumes "rolls s1 s2 (b # w)" and "roll_update s1 s2 (Suc (length w)) b (Some c) = (t1, t2)"
  shows "rolls t1 t2 (w @ [c])"
proof -
  let ?b = "SignExtend b" and ?c = "SignExtend c"
  have t1: "t1 = take_bit 16 (s1 - ?b + ?c)"
    and t2: "t2 = take_bit 16 (s2 - of_nat (Suc (length w)) * ?b + (s1 - ?b + ?c))"
    using assms(2) by (auto simp: roll_update_def Let_def ucast16_ucast16)
  have s: "65536 * s1 = 65536 * sumA (b # w)" "65536 * s2 = 65536 * sumB (b # w)"
    using assms(1) by (simp_all only: rolls_def take16_mult)
  have "65536 * (s1 - ?b + ?c) = 65536 * sumA (w @ [c])"
    using s(1) by (simp add: algebra_simps)
  then have "t1 = take_bit 16 (sumA (w @ [c]))" unfolding t1 by (rule take16_eqI)
  moreover
  have "65536 * (s2 - of_nat (Suc (length w)) * ?b + (s1 - ?b + ?c)) = 65536 * sumB (w @ [c])"
    using s by (simp add: sumB_append algebra_simps)
  then have "t2 = take_bit 16 (sumB (w @ [c]))" unfolding t2 by (rule take16_eqI)
  ultimately show ?thesis by (simp add: rolls_def)
qed

lemma roll_update_shrink:
  assumes "rolls s1 s2 (b # w)" and "roll_update s1 s2 (Suc (length w)) b None = (t1, t2)"
  shows "rolls t1 t2 w"
proof -
  let ?b = "SignExtend b"
  have t1: "t1 = take_bit 16 (s1 - ?b)"
    and t2: "t2 = take_bit 16 (s2 - of_nat (Suc (length w)) * ?b)"
    using assms(2) by (auto simp: roll_update_def Let_def ucast16_ucast16)
  have s: "65536 * s1 = 65536 * sumA (b # w)" "65536 * s2 = 65536 * sumB (b # w)"
    using assms(1) by (simp_all only: rolls_def take16_mult)
  have "65536 * (s1 - ?b) = 65536 * sumA w"
    using s(1) by (simp add: algebra_simps)
  then have "t1 = take_bit 16 (sumA w)" unfolding t1 by (rule take16_eqI)
  moreover have "65536 * (s2 - of_nat (Suc (length w)) * ?b) = 65536 * sumB w"
    using s(2) by (simp add: algebra_simps)
  then have "t2 = take_bit 16 (sumB w)" unfolding t2 by (rule take16_eqI)
  ultimately show ?thesis by (simp add: rolls_def)
qed

section \<open>Sign extension and constant blocks\<close>

lemma SignExtend_scast: "SignExtend b = scast b"
  by (rule bit_word_eqI)
    (auto simp: SignExtend_def Let_def bit_signed_drop_bit_iff bit_push_bit_iff bit_unsigned_iff
      bit_word_scast_iff dest: bit_imp_le_length)

lemma sumA_replicate: "sumA (replicate n b) = of_nat n * SignExtend b"
  by (induction n) (auto simp: algebra_simps)

lemma sumB_replicate: "sumB (replicate n b) = of_nat (n * (n + 1) div 2) * SignExtend b"
proof (induction n)
  case 0
  then show ?case by simp
next
  case (Suc n)
  have "Suc n * (Suc n + 1) div 2 = Suc n + n * (n + 1) div 2" by simp
  then show ?case using Suc by (simp add: algebra_simps del: mult_Suc mult_Suc_right)
qed

end
