(* ===== verification/IntSqrt.thy ===== *)
theory IntSqrt
  imports Prelude
begin

text \<open>
  \<open>int32(math.Sqrt(float64(n)))\<close> for a nonnegative \<open>n\<close>, as rsynccommon computes its block
  length: the conversion to a float64 (53 significant bits, round to nearest, ties to even), the
  correctly rounded square root of IEEE 754, and the truncating conversion back.  All of it is
  integer arithmetic.  The result of this theory is that below \<open>2 ^ 52\<close> the rounding never
  shows: the value is the integer square root.
\<close>

section \<open>Integer square root and bit length\<close>

fun isqrt :: "nat \<Rightarrow> nat" where
  "isqrt n =
     (if n = 0 then 0
      else let r = 2 * isqrt (n div 4) in if (r + 1) * (r + 1) \<le> n then r + 1 else r)"

declare isqrt.simps [simp del]

lemma isqrt_spec: "isqrt n * isqrt n \<le> n \<and> n < (isqrt n + 1) * (isqrt n + 1)"
proof (induction n rule: isqrt.induct)
  case (1 n)
  show ?case
  proof (cases "n = 0")
    case True
    then show ?thesis by (simp add: isqrt.simps [of 0])
  next
    case False
    define t where "t = isqrt (n div 4)"
    have t: "t * t \<le> n div 4" "n div 4 < (t + 1) * (t + 1)"
      using 1 [OF False] by (simp_all add: t_def)
    have lo: "4 * (t * t) \<le> n"
      using t(1) by linarith
    have "n div 4 + 1 \<le> (t + 1) * (t + 1)" using t(2) by linarith
    moreover have "n < 4 * (n div 4 + 1)" by simp
    ultimately have hi: "n < 4 * ((t + 1) * (t + 1))" by linarith
    have "isqrt n = (if (2 * t + 1) * (2 * t + 1) \<le> n then 2 * t + 1 else 2 * t)"
      using False by (subst isqrt.simps) (simp add: t_def Let_def)
    then show ?thesis using lo hi by (auto simp: algebra_simps)
  qed
qed

lemma isqrt_unique:
  assumes "r * r \<le> n" and "n < (r + 1) * (r + 1)"
  shows "isqrt n = r"
proof (rule ccontr)
  assume "isqrt n \<noteq> r"
  then consider "isqrt n + 1 \<le> r" | "r + 1 \<le> isqrt n" by linarith
  then show False
  proof cases
    case 1
    then have "(isqrt n + 1) * (isqrt n + 1) \<le> r * r" by (rule mult_le_mono) (use 1 in auto)
    with isqrt_spec [of n] assms(1) show False by linarith
  next
    case 2
    then have "(r + 1) * (r + 1) \<le> isqrt n * isqrt n" by (rule mult_le_mono) (use 2 in auto)
    with isqrt_spec [of n] assms(2) show False by linarith
  qed
qed

lemma isqrt_mono: "m \<le> n \<Longrightarrow> isqrt m \<le> isqrt n"
proof (rule ccontr)
  assume "m \<le> n" and "\<not> isqrt m \<le> isqrt n"
  then have "isqrt n + 1 \<le> isqrt m" by simp
  then have "(isqrt n + 1) * (isqrt n + 1) \<le> isqrt m * isqrt m" by (intro mult_le_mono)
  with isqrt_spec [of n] isqrt_spec [of m] \<open>m \<le> n\<close> show False by linarith
qed

lemma isqrt_less: "n < k * k \<Longrightarrow> isqrt n < k"
proof (rule ccontr)
  assume "n < k * k" and "\<not> isqrt n < k"
  then have "k * k \<le> isqrt n * isqrt n" by (intro mult_le_mono) auto
  with isqrt_spec [of n] \<open>n < k * k\<close> show False by linarith
qed

fun nbits :: "nat \<Rightarrow> nat" where
  "nbits n = (if n = 0 then 0 else Suc (nbits (n div 2)))"

declare nbits.simps [simp del]

lemma nbits_bound: "n < 2 ^ nbits n"
proof (induction n rule: nbits.induct)
  case (1 n)
  show ?case
  proof (cases "n = 0")
    case True
    then show ?thesis by (simp add: nbits.simps [of 0])
  next
    case False
    from 1 [OF False] have "n div 2 + 1 \<le> 2 ^ nbits (n div 2)" by simp
    then have "n < 2 * 2 ^ nbits (n div 2)" by linarith
    with False show ?thesis by (simp add: nbits.simps [of n])
  qed
qed

lemma nbits_le: "n < 2 ^ k \<Longrightarrow> nbits n \<le> k"
proof (induction k arbitrary: n)
  case 0
  then show ?case by (simp add: nbits.simps [of 0])
next
  case (Suc k)
  then have "n div 2 < 2 ^ k" by auto
  with Suc.IH [of "n div 2"] show ?case by (subst nbits.simps) simp
qed

section \<open>float64 conversion and square root\<close>

definition float64_of_nat :: "nat \<Rightarrow> nat" where
  "float64_of_nat n =
     (let k = nbits n - 53; q = n div 2 ^ k; r = n mod 2 ^ k
      in if k = 0 then n
         else (if 2 * r > 2 ^ k \<or> (2 * r = 2 ^ k \<and> odd q) then q + 1 else q) * 2 ^ k)"

text \<open>
  The integer part of the rounded root of the integral float \<open>m\<close>: the root is computed to 53
  significant bits (\<open>s\<close> of them after the point) and rounded to nearest; no tie is possible.
\<close>

definition trunc_sqrt_float64 :: "nat \<Rightarrow> nat" where
  "trunc_sqrt_float64 m =
     (let s = 53 - (nbits m + 1) div 2; q = isqrt (m * 4 ^ s);
          r = (if m * 4 ^ s - q * q > q then q + 1 else q)
      in r div 2 ^ s)"

text \<open>The conversion of a float beyond the int32 range is left to the processor; amd64 gives \<open>-2 ^ 31\<close>.\<close>

definition int32_sqrt :: "nat \<Rightarrow> int" where
  "int32_sqrt n =
     (let t = trunc_sqrt_float64 (float64_of_nat n) in if t < 2 ^ 31 then int t else - (2 ^ 31))"

lemma isqrt_scaled: "isqrt (m * 4 ^ s) div 2 ^ s = isqrt m"
proof -
  let ?q = "isqrt (m * 4 ^ s)" and ?p = "2 ^ s :: nat"
  have p: "(4::nat) ^ s = ?p * ?p" by (simp add: power_mult_distrib [symmetric])
  have lo: "?q * ?q \<le> m * (?p * ?p)" and hi: "m * (?p * ?p) < (?q + 1) * (?q + 1)"
    using isqrt_spec [of "m * 4 ^ s"] by (simp_all add: p)
  define d where "d = ?q div ?p"
  have sq: "(x * ?p) * (x * ?p) = (x * x) * (?p * ?p)" for x :: nat by (simp only: ac_simps)
  have "(d * ?p) * (d * ?p) \<le> ?q * ?q" unfolding d_def by (intro mult_le_mono) auto
  then have "(d * d) * (?p * ?p) \<le> m * (?p * ?p)" using lo by (simp only: sq order_trans)
  then have 1: "d * d \<le> m" by simp
  have "?q < (d + 1) * ?p"
    unfolding d_def by (metis less_add_one div_less_iff_less_mult zero_less_numeral zero_less_power)
  then have "(?q + 1) * (?q + 1) \<le> ((d + 1) * ?p) * ((d + 1) * ?p)"
    by (intro mult_le_mono) auto
  then have "m * (?p * ?p) < ((d + 1) * (d + 1)) * (?p * ?p)"
    using hi by (simp only: sq order.strict_trans2)
  then have 2: "m < (d + 1) * (d + 1)" by (simp only: mult_less_cancel2)
  show ?thesis using isqrt_unique [OF 1 2] by (simp add: d_def)
qed

lemma trunc_sqrt_exact:
  assumes "m < 2 ^ 52"
  shows "trunc_sqrt_float64 m = isqrt m"
proof -
  define L where "L = (nbits m + 1) div 2"
  define s where "s = 53 - L"
  define q where "q = isqrt (m * 4 ^ s)"
  define t where "t = isqrt m"
  have "nbits m \<le> 52" using assms by (rule nbits_le)
  then have L: "L \<le> 26" "L \<le> s" by (auto simp: L_def s_def)
  have p: "(4::nat) ^ s = 2 ^ s * 2 ^ s" by (simp add: power_mult_distrib [symmetric])
  have "m < 2 ^ (2 * L)"
    by (rule less_le_trans [OF nbits_bound power_increasing]) (auto simp: L_def)
  then have "t < 2 ^ L" unfolding t_def by (intro isqrt_less) (simp add: mult_2 power_add)
  moreover have "(2::nat) ^ L \<le> 2 ^ s" using L(2) by (intro power_increasing) auto
  ultimately have ts: "t + 1 \<le> 2 ^ s" by linarith
  have qt: "q div 2 ^ s = t" by (simp add: q_def t_def isqrt_scaled)
  have "(q + 1) div 2 ^ s = t" if up: "m * 4 ^ s - q * q > q"
  proof (rule ccontr)
    assume ne: "(q + 1) div 2 ^ s \<noteq> t"
    have "q < (t + 1) * 2 ^ s"
      using qt div_less_iff_less_mult [of "2 ^ s" q "t + 1"] by simp
    moreover have "\<not> q + 1 < (t + 1) * 2 ^ s"
    proof
      assume "q + 1 < (t + 1) * 2 ^ s"
      then have "(q + 1) div 2 ^ s < t + 1"
        using div_less_iff_less_mult [of "2 ^ s" "q + 1" "t + 1"] by simp
      with ne qt div_le_mono [of q "q + 1" "2 ^ s"] show False by linarith
    qed
    ultimately have q1: "q + 1 = (t + 1) * 2 ^ s" by linarith
    have "m + 1 \<le> (t + 1) * (t + 1)" using isqrt_spec [of m] by (simp add: t_def)
    then have "(m + 1) * 4 ^ s \<le> (t + 1) * (t + 1) * 4 ^ s" by (rule mult_le_mono1)
    also have "\<dots> = (q + 1) * (q + 1)" unfolding q1 p by (simp only: ac_simps)
    finally have a: "m * 4 ^ s + 4 ^ s \<le> q * q + q + (q + 1)" by (simp add: algebra_simps)
    have "q + 1 \<le> 4 ^ s" unfolding q1 p using ts by (rule mult_le_mono1)
    with a up show False by linarith
  qed
  then have "(if m * 4 ^ s - q * q > q then q + 1 else q) div 2 ^ s = t" using qt by simp
  then show ?thesis
    unfolding trunc_sqrt_float64_def Let_def L_def s_def q_def t_def .
qed

lemma int32_sqrt_exact:
  assumes "n < 2 ^ 52"
  shows "int32_sqrt n = int (isqrt n)"
proof -
  have "nbits n \<le> 53" using nbits_le [OF assms] by simp
  then have "float64_of_nat n = n" by (simp add: float64_of_nat_def Let_def)
  moreover have "isqrt n < 2 ^ 26"
    using assms by (intro isqrt_less) (simp add: power_add [symmetric])
  ultimately show ?thesis
    using assms by (simp add: int32_sqrt_def Let_def trunc_sqrt_exact)
qed

end
