(* ===== verification/Sums.thy ===== *)
theory Sums
  imports Wire Checksum IntSqrt "HOL-Library.Signed_Division"
begin

text \<open>
  rsync/types.go (\<open>SumBuf\<close>, \<open>SumHead\<close>, \<open>ReadFrom\<close>, \<open>WriteTo\<close>), rsynccommon
  (\<open>SumSizesSqroot\<close>), the generator's \<open>generateAndSendSums\<close> and the sender's
  \<open>receiveSums\<close>: the signature of a file, how it is laid out in blocks, sent and read back.
\<close>

section \<open>SumHead\<close>

record SumBuf =
  Offset :: int
  Len :: int
  Index :: int
  Sum1 :: u32
  Sum2 :: bytes

record SumHead =
  ChecksumCount :: i32
  BlockLength :: i32
  ChecksumLength :: i32
  RemainderLength :: i32
  Sums :: "SumBuf list"

definition zero_SumHead :: SumHead where
  "zero_SumHead = \<lparr>ChecksumCount = 0, BlockLength = 0, ChecksumLength = 0, RemainderLength = 0,
     Sums = []\<rparr>"

definition maxBlockLen :: int where "maxBlockLen = 2 ^ 29"

definition ReadFrom :: "('z reader_scheme, SumHead) io" where
  "ReadFrom =
     ebind ReadInt32 (\<lambda>count.
       if sint count < 0 then fail (Errorf ''invalid checksum count'')
       else ebind ReadInt32 (\<lambda>blen.
         if sint blen < 0 \<or> sint blen > maxBlockLen then fail (Errorf ''invalid block length'')
         else ebind ReadInt32 (\<lambda>clen.
           if sint clen < 0 \<or> sint clen > 16 then fail (Errorf ''invalid checksum length'')
           else ebind ReadInt32 (\<lambda>rem.
             if sint rem < 0 \<or> sint rem > sint blen then fail (Errorf ''invalid remainder length'')
             else ret \<lparr>ChecksumCount = count, BlockLength = blen, ChecksumLength = clen,
                       RemainderLength = rem, Sums = []\<rparr>))))"

definition enc_head :: "SumHead \<Rightarrow> bytes" where
  "enc_head sh =
     Buffer_WriteInt32 (RemainderLength sh) (Buffer_WriteInt32 (ChecksumLength sh)
       (Buffer_WriteInt32 (BlockLength sh) (Buffer_WriteInt32 (ChecksumCount sh) [])))"

definition WriteTo :: "SumHead \<Rightarrow> ('z conn_scheme, unit) io" where
  "WriteTo sh = WriteString (enc_head sh)"

text \<open>What \<open>ReadFrom\<close> checks of the four fields.\<close>

definition head_ok :: "SumHead \<Rightarrow> bool" where
  "head_ok sh \<longleftrightarrow>
     0 \<le> sint (ChecksumCount sh) \<and>
     0 \<le> sint (BlockLength sh) \<and> sint (BlockLength sh) \<le> 2 ^ 29 \<and>
     0 \<le> sint (ChecksumLength sh) \<and> sint (ChecksumLength sh) \<le> 16 \<and>
     0 \<le> sint (RemainderLength sh) \<and> sint (RemainderLength sh) \<le> sint (BlockLength sh)"

lemma length_enc_head [simp]: "length (enc_head sh) = 16"
  by (simp add: enc_head_def Buffer_defs)

lemma ReadFrom_enc_head:
  assumes "rx c = enc_head sh @ q" and "head_ok sh"
  shows "ReadFrom c = (Inr (sh\<lparr>Sums := []\<rparr>), advance 16 c)"
proof -
  have rx: "rx c = le_enc 4 (ChecksumCount sh) @ le_enc 4 (BlockLength sh) @
      le_enc 4 (ChecksumLength sh) @ le_enc 4 (RemainderLength sh) @ q"
    using assms(1) by (simp add: enc_head_def Buffer_defs)
  show ?thesis
    using assms(2) rx
    by (simp add: ReadFrom_def ebind_def ReadInt32_enc head_ok_def maxBlockLen_def)
qed

lemma ReadFrom_head_ok: "ReadFrom c = (Inr sh, c') \<Longrightarrow> head_ok sh \<and> Sums sh = []"
  by (auto simp: ReadFrom_def ebind_eq_Inr head_ok_def maxBlockLen_def split: if_splits)

lemma ReadFrom_reject:
  assumes "rx c = enc_head sh @ q" and "\<not> head_ok sh"
  shows "\<exists>msg. fst (ReadFrom c) = Inl (Errorf msg)"
proof -
  have rx: "rx c = le_enc 4 (ChecksumCount sh) @ le_enc 4 (BlockLength sh) @
      le_enc 4 (ChecksumLength sh) @ le_enc 4 (RemainderLength sh) @ q"
    using assms(1) by (simp add: enc_head_def Buffer_defs)
  then show ?thesis
    using assms(2)
    by (auto simp: ReadFrom_def ebind_def ReadInt32_enc head_ok_def maxBlockLen_def)
qed

section \<open>SumSizesSqroot\<close>

definition blockSize :: int where "blockSize = 700"

definition SumSizesSqroot :: "int \<Rightarrow> SumHead" where
  "SumSizesSqroot contentLen =
     (let blockLength = max (int32_sqrt (nat contentLen)) blockSize;
          checksumLength = 16 :: i32
      in \<lparr>ChecksumCount = word_of_int ((contentLen + (blockLength - 1)) sdiv blockLength),
          BlockLength = word_of_int blockLength,
          ChecksumLength = checksumLength,
          RemainderLength = word_of_int (contentLen smod blockLength),
          Sums = []\<rparr>)"

lemma sdiv_nonneg: "0 \<le> a \<Longrightarrow> 0 < b \<Longrightarrow> (a :: int) sdiv b = a div b"
  by (cases "a = 0") (auto simp: signed_divide_int_def)

lemma smod_nonneg: "0 \<le> a \<Longrightarrow> 0 < b \<Longrightarrow> (a :: int) smod b = a mod b"
  by (cases "a = 0") (auto simp: signed_modulo_int_def)

text \<open>The block length chosen for a file of \<open>n\<close> bytes, and the number of blocks.\<close>

definition block_len :: "nat \<Rightarrow> nat" where
  "block_len n = max (isqrt n) 700"

lemma block_len_pos [simp]: "0 < block_len n" "block_len n \<noteq> 0" "700 \<le> block_len n"
  by (auto simp: block_len_def)

lemma block_len_bound: "n < 2 ^ 52 \<Longrightarrow> block_len n < 2 ^ 26"
  using isqrt_less [of n "2 ^ 26"] by (simp add: block_len_def power_add [symmetric])

lemma block_count_bound:
  assumes "n < 2 ^ 52"
  shows "(n + (block_len n - 1)) div block_len n \<le> 2 ^ 26 + 1"
proof -
  let ?B = "block_len n"
  have "n < (isqrt n + 1) * (isqrt n + 1)" using isqrt_spec by blast
  also have "\<dots> \<le> (?B + 1) * (?B + 1)" by (intro mult_le_mono) (auto simp: block_len_def)
  finally have "n \<le> ?B * ?B + 2 * ?B" by simp
  then have "n + (?B - 1) < ?B * ?B + 3 * ?B" using block_len_pos(1) [of n] by linarith
  then have "n + (?B - 1) < (?B + 3) * ?B" by (simp add: algebra_simps)
  then have "(n + (?B - 1)) div ?B < ?B + 3" by (simp add: div_less_iff_less_mult)
  moreover have "?B < 2 ^ 26" using assms by (rule block_len_bound)
  ultimately show ?thesis by linarith
qed

lemma SumSizesSqroot_fields:
  assumes "n < 2 ^ 52"
  shows "sint (BlockLength (SumSizesSqroot (int n))) = int (block_len n)"
    and "sint (ChecksumCount (SumSizesSqroot (int n))) = int ((n + (block_len n - 1)) div block_len n)"
    and "sint (RemainderLength (SumSizesSqroot (int n))) = int (n mod block_len n)"
    and "sint (ChecksumLength (SumSizesSqroot (int n))) = 16"
    and "Sums (SumSizesSqroot (int n)) = []"
proof -
  let ?B = "block_len n"
  have B: "max (int32_sqrt n) blockSize = int ?B"
    using assms by (simp add: int32_sqrt_exact block_len_def blockSize_def of_nat_max)
  have Bb: "?B < 2 ^ 26" using assms by (rule block_len_bound)
  have c: "(int n + (int ?B - 1)) sdiv int ?B = int ((n + (?B - 1)) div ?B)"
  proof -
    have "int n + (int ?B - 1) = int (n + (?B - 1))" by (simp add: of_nat_diff Suc_leI)
    then show ?thesis by (simp only: sdiv_nonneg of_nat_0_le_iff of_nat_0_less_iff block_len_pos zdiv_int)
  qed
  have r: "int n smod int ?B = int (n mod ?B)"
    by (subst smod_nonneg) (auto simp: zmod_int)
  show "sint (BlockLength (SumSizesSqroot (int n))) = int ?B"
    using Bb by (simp add: SumSizesSqroot_def Let_def B sint_word_of_nat32)
  show "sint (ChecksumCount (SumSizesSqroot (int n))) = int ((n + (?B - 1)) div ?B)"
    using block_count_bound [OF assms]
    by (simp add: SumSizesSqroot_def Let_def B c sint_word_of_int32 sint_word_of_nat32)
  have "n mod ?B < ?B" by simp
  then have "n mod ?B < 2 ^ 26" using Bb by (rule less_trans)
  also have "(2::nat) ^ 26 < 2 ^ 31" by simp
  finally have "n mod ?B < 2 ^ 31" .
  then show "sint (RemainderLength (SumSizesSqroot (int n))) = int (n mod ?B)"
    by (simp add: SumSizesSqroot_def Let_def B r sint_word_of_int32 sint_word_of_nat32)
  show "sint (ChecksumLength (SumSizesSqroot (int n))) = 16" "Sums (SumSizesSqroot (int n)) = []"
    by (simp_all add: SumSizesSqroot_def Let_def)
qed

lemma SumSizesSqroot_ok:
  assumes "n < 2 ^ 52"
  shows "head_ok (SumSizesSqroot (int n))"
  using block_len_bound [OF assms]
  by (auto simp: head_ok_def SumSizesSqroot_fields [OF assms] intro: less_imp_le
      order_trans [OF less_imp_le [OF mod_less_divisor]])

section \<open>Blocks\<close>

text \<open>A file cut into blocks of \<open>B\<close> bytes, the last one possibly shorter.\<close>

function blocks :: "nat \<Rightarrow> 'a list \<Rightarrow> 'a list list" where
  "blocks B xs = (if B = 0 \<or> xs = [] then [] else take B xs # blocks B (drop B xs))"
  by pat_completeness auto
termination
  by (relation "measure (\<lambda>(B, xs). length xs)") auto

declare blocks.simps [simp del]

lemma blocks_Nil [simp]: "blocks B [] = []"
  by (simp add: blocks.simps)

lemma blocks_Cons: "0 < B \<Longrightarrow> xs \<noteq> [] \<Longrightarrow> blocks B xs = take B xs # blocks B (drop B xs)"
  by (subst blocks.simps) simp

lemma concat_blocks: "0 < B \<Longrightarrow> concat (blocks B xs) = xs"
  by (induction B xs rule: blocks.induct) (subst blocks.simps, auto)

lemma length_blocks: "0 < B \<Longrightarrow> length (blocks B xs) = (length xs + (B - 1)) div B"
proof (induction B xs rule: blocks.induct)
  case (1 B xs)
  show ?case
  proof (cases "xs = []")
    case True
    with 1 show ?thesis by simp
  next
    case ne: False
    have ih: "length (blocks B (drop B xs)) = (length xs - B + (B - 1)) div B"
      using 1 ne by simp
    have "(length xs + (B - 1)) div B = Suc ((length xs - B + (B - 1)) div B)"
    proof (cases "B \<le> length xs")
      case True
      then have "length xs + (B - 1) = B + (length xs - B + (B - 1))" by simp
      then show ?thesis using 1 by (simp only: div_add_self1)
    next
      case False
      then have "(length xs + (B - 1)) div B = 1"
        using 1 ne by (intro div_nat_eqI) (cases xs, auto)
      with False 1 show ?thesis by simp
    qed
    with ih 1 ne show ?thesis by (simp add: blocks_Cons)
  qed
qed

lemma nth_blocks: "0 < B \<Longrightarrow> i < length (blocks B xs) \<Longrightarrow> blocks B xs ! i = take B (drop (i * B) xs)"
proof (induction i arbitrary: xs)
  case 0
  then show ?case by (cases "xs = []") (auto simp: blocks_Cons)
next
  case (Suc i)
  then have "xs \<noteq> []" by auto
  with Suc show ?case by (simp add: blocks_Cons add.commute)
qed

lemma blocks_last_len:
  assumes "0 < B" and "i < length (blocks B xs)"
  shows "length (blocks B xs ! i) =
    (if i = length (blocks B xs) - 1 \<and> length xs mod B \<noteq> 0 then length xs mod B else B)"
proof -
  let ?n = "length xs"
  have i: "i < (?n + (B - 1)) div B" using assms by (simp add: length_blocks)
  then have "Suc i * B \<le> ?n + (B - 1)" by (meson Suc_leI assms(1) less_eq_div_iff_mult_less_eq)
  then have iB: "i * B < ?n" using assms(1) by simp
  have len: "length (blocks B xs ! i) = min B (?n - i * B)"
    using assms by (simp add: nth_blocks min.commute)
  have dm: "?n = B * (?n div B) + ?n mod B" by simp
  have modlt: "?n mod B < B" using assms(1) by simp
  show ?thesis
  proof (cases "i = ?n div B")
    case True
    then have nm: "?n - i * B = ?n mod B" by (simp add: minus_div_mult_eq_mod)
    with iB have "?n mod B \<noteq> 0" by linarith
    moreover have "(?n + (B - 1)) div B = Suc (?n div B)"
    proof (rule div_nat_eqI)
      show "B * Suc (?n div B) \<le> ?n + (B - 1)"
        using dm \<open>?n mod B \<noteq> 0\<close> assms(1) unfolding mult_Suc_right by linarith
      show "?n + (B - 1) < B * Suc (Suc (?n div B))"
        using dm modlt assms(1) unfolding mult_Suc_right by linarith
    qed
    moreover have "length (blocks B xs ! i) = ?n mod B" using nm modlt by (simp add: len)
    ultimately show ?thesis
      using True by (simp add: length_blocks [OF assms(1)])
  next
    case False
    have "i \<le> ?n div B" using iB assms(1) by (simp add: less_eq_div_iff_mult_less_eq)
    with False have lt: "Suc i \<le> ?n div B" by simp
    then have "Suc i * B \<le> ?n" using assms(1) by (simp add: less_eq_div_iff_mult_less_eq)
    then have "length (blocks B xs ! i) = B" by (simp add: len)
    moreover have "\<not> (i = length (blocks B xs) - 1 \<and> ?n mod B \<noteq> 0)"
    proof
      assume a: "i = length (blocks B xs) - 1 \<and> ?n mod B \<noteq> 0"
      have "Suc (?n div B) * B = B + B * (?n div B)" by simp
      with dm a assms(1) have "Suc (?n div B) * B \<le> ?n + (B - 1)" by linarith
      then have "Suc (?n div B) \<le> (?n + (B - 1)) div B"
        using assms(1) by (simp only: less_eq_div_iff_mult_less_eq)
      with a lt show False by (simp add: length_blocks [OF assms(1)])
    qed
    ultimately show ?thesis by (simp only: if_False)
  qed
qed

section \<open>What the checksums and heads promise\<close>

lemma SignExtend_sint: "SignExtend b = word_of_int (sint b)"
  unfolding SignExtend_scast by (rule scast_eq)

lemma sumA_int: "sumA buf = word_of_int (\<Sum>i<length buf. sint (buf ! i))"
proof (induction buf)
  case (Cons b bs)
  have "(\<Sum>i<length (b # bs). sint ((b # bs) ! i)) = sint b + (\<Sum>i<length bs. sint (bs ! i))"
    unfolding list.size(4) add_0_right add_Suc_right One_nat_def
    by (subst sum.lessThan_Suc_shift) simp
  then show ?case by (simp only: sumA.simps Cons SignExtend_sint of_int_add)
qed simp

lemma sumB_int: "sumB buf = word_of_int (\<Sum>i<length buf. (int (length buf) - int i) * sint (buf ! i))"
proof (induction buf)
  case (Cons b bs)
  have "(\<Sum>i<length (b # bs). (int (length (b # bs)) - int i) * sint ((b # bs) ! i)) =
      int (Suc (length bs)) * sint b + (\<Sum>i<length bs. (int (length bs) - int i) * sint (bs ! i))"
    unfolding list.size(4) add_0_right add_Suc_right One_nat_def
    by (subst sum.lessThan_Suc_shift) simp
  then show ?case by (simp only: sumB.simps Cons SignExtend_sint of_int_add of_int_mult of_int_of_nat_eq)
qed simp

lemma uint_take16: "uint (take_bit 16 (word_of_int x :: u32)) = x mod 2 ^ 16"
proof -
  have "uint (take_bit 16 (word_of_int x :: u32)) = take_bit 16 (take_bit 32 x)"
    by (simp only: unsigned_take_bit_eq unsigned_of_int, simp)
  also have "\<dots> = x mod 2 ^ 16" by (simp add: take_bit_eq_mod [of 16 x])
  finally show ?thesis .
qed

text \<open>
  C19: the unrolled loop of Checksum1 computes the weighted sums of the rsync algorithm on signed
  bytes: the low half is the plain sum, the high half weighs each byte by its distance from the end,
  both modulo 2^16.
\<close>
theorem Checksum1_closed_form:
  "uint (Checksum1 buf) =
     (\<Sum>i<length buf. sint (buf ! i)) mod 2 ^ 16 +
     2 ^ 16 * ((\<Sum>i<length buf. (int (length buf) - int i) * sint (buf ! i)) mod 2 ^ 16)"
proof -
  let ?a = "\<Sum>i<length buf. sint (buf ! i)" and ?b = "\<Sum>i<length buf. (int (length buf) - int i) * sint (buf ! i)"
  let ?A = "take_bit 16 (word_of_int ?a :: u32)" and ?B = "take_bit 16 (word_of_int ?b :: u32)"
  have "Checksum1 buf = ?A + push_bit 16 ?B"
    by (simp add: Checksum1_sums and_ffff sumA_int sumB_int take16_push)
  then have "uint (Checksum1 buf) = (uint ?A + 2 ^ 16 * uint ?B) mod 2 ^ 32"
    by (simp add: push16 uint_word_ariths mod_simps)
  moreover have "uint ?A + 2 ^ 16 * uint ?B < 2 ^ 32"
  proof -
    have "uint ?A < 2 ^ 16" "uint ?B < 2 ^ 16" unfolding uint_take16 by simp_all
    then show ?thesis by simp
  qed
  ultimately show ?thesis unfolding uint_take16 by simp
qed

text \<open>
  C18: the update of hashSearch, applied to the two halves of the checksum of a window, gives the two
  halves of the checksum of the window one byte further on.
\<close>
theorem rolling_update_exact:
  "roll_update (Checksum1 (b # w) AND 0xFFFF) (drop_bit 16 (Checksum1 (b # w))) (Suc (length w)) b (Some c) =
     (Checksum1 (w @ [c]) AND 0xFFFF, drop_bit 16 (Checksum1 (w @ [c])))"
proof -
  obtain t1 t2 where t: "roll_update (Checksum1 (b # w) AND 0xFFFF) (drop_bit 16 (Checksum1 (b # w)))
      (Suc (length w)) b (Some c) = (t1, t2)" by fastforce
  from roll_update_shift [OF rolls_Checksum1 this] show ?thesis
    unfolding t by (simp only: rolls_def Checksum1_low Checksum1_high)
qed

text \<open>
  The values that rsyncchecksum/checksum_test.go expects of Checksum1 for its six buffers.
\<close>
theorem Checksum1_test_vectors:
  "Checksum1 (replicate 1768 0x11) = 0xa5d47568 \<and>
   Checksum1 (replicate 1768 0xbb) = 0x8c1c2378 \<and>
   Checksum1 (replicate 1768 0xee) = 0x7d9883b0 \<and>
   Checksum1 (replicate 456 0xee) = 0x61b8dff0 \<and>
   Checksum1 (replicate 152 0x11 @ replicate 1616 0xbb) = 0x23645688 \<and>
   Checksum1 (replicate 304 0xbb @ replicate 1464 0xee) = 0x12504720"
  by (simp add: Checksum1_sums sumB_append sumA_replicate sumB_replicate SignExtend_def Let_def)

text \<open>
  C20: WriteTo and ReadFrom: the head that one side writes is read back field by field if it is within
  the limits, and refused with an error otherwise.
\<close>
theorem SumHead_roundtrip:
  assumes "room c = None" and "sent c = []"
  shows "\<exists>c'. WriteTo sh c = (Inr (), c') \<and>
    (\<forall>(d :: conn) q. rx d = sent c' @ q \<longrightarrow>
       (if head_ok sh then (\<exists>d'. ReadFrom d = (Inr (sh\<lparr>Sums := []\<rparr>), d') \<and> rx d' = q)
        else (\<exists>msg. fst (ReadFrom d) = Inl (Errorf msg))))"
proof -
  have w: "WriteTo sh c = (Inr (), emit (enc_head sh) c)" "sent (emit (enc_head sh) c) = enc_head sh"
    using assms by (simp_all add: WriteTo_def WriteString_ok)
  have "if head_ok sh then (\<exists>d'. ReadFrom d = (Inr (sh\<lparr>Sums := []\<rparr>), d') \<and> rx d' = q)
      else (\<exists>msg. fst (ReadFrom d) = Inl (Errorf msg))" if "rx d = enc_head sh @ q" for d :: conn and q
    using ReadFrom_enc_head [OF that] ReadFrom_reject [OF that] that by auto
  with w show ?thesis by (intro exI [of _ "emit (enc_head sh) c"]) simp
qed

theorem SumHead_roundtrip_witness:
  "\<exists>c'. WriteTo (SumSizesSqroot 1000000) \<lparr>rx = [], nread = 0, tx = [], room = None\<rparr> = (Inr (), c') \<and>
    (\<forall>(d :: conn) q. rx d = sent c' @ q \<longrightarrow>
       (if head_ok (SumSizesSqroot 1000000)
        then (\<exists>d'. ReadFrom d = (Inr ((SumSizesSqroot 1000000)\<lparr>Sums := []\<rparr>), d') \<and> rx d' = q)
        else (\<exists>msg. fst (ReadFrom d) = Inl (Errorf msg))))"
  by (rule SumHead_roundtrip) (simp_all add: sent_def)

text \<open>
  C21: for a file below 2^52 bytes the rounding of float64 never shows in SumSizesSqroot: the block
  length is the integer square root of the size (at least 700), the blocks of that length are as many
  as announced, the last one has the announced remainder, and together they are the file.
\<close>
theorem SumSizesSqroot_exact:
  assumes "length xs < 2 ^ 52"
  shows "let sh = SumSizesSqroot (int (length xs)); B = max (isqrt (length xs)) 700; bs = blocks B xs
    in sint (BlockLength sh) = int B \<and> sint (ChecksumCount sh) = int (length bs) \<and>
       sint (RemainderLength sh) = int (length xs mod B) \<and> head_ok sh \<and> concat bs = xs \<and>
       (\<forall>i < length bs. length (bs ! i) =
          (if i = length bs - 1 \<and> length xs mod B \<noteq> 0 then length xs mod B else B))"
  using SumSizesSqroot_fields [OF assms] SumSizesSqroot_ok [OF assms]
    concat_blocks [OF block_len_pos(1) [of "length xs"], of xs]
    blocks_last_len [OF block_len_pos(1) [of "length xs"], of _ xs]
  by (simp add: Let_def block_len_def [symmetric] length_blocks)

theorem SumSizesSqroot_exact_witness:
  "let sh = SumSizesSqroot (int (length [1, 2, 3 :: byte])); B = max (isqrt (length [1, 2, 3 :: byte])) 700;
       bs = blocks B [1, 2, 3 :: byte]
   in sint (BlockLength sh) = int B \<and> sint (ChecksumCount sh) = int (length bs) \<and>
      sint (RemainderLength sh) = int (length [1, 2, 3 :: byte] mod B) \<and> head_ok sh \<and> concat bs = [1, 2, 3] \<and>
      (\<forall>i < length bs. length (bs ! i) =
         (if i = length bs - 1 \<and> length [1, 2, 3 :: byte] mod B \<noteq> 0 then length [1, 2, 3 :: byte] mod B else B))"
  by (rule SumSizesSqroot_exact) simp

end
