(* ===== verification/Signature.thy ===== *)
theory Signature
  imports Sums
begin

text \<open>
  The signature of a file on its way from the generator (\<open>generateAndSendSums\<close> in
  rsyncreceiver/generator.go) to the sender (\<open>receiveSums\<close> in rsyncsender/sender.go).  The
  result is the round trip: the sender holds, for every block of the receiver's file, its
  offset, length and index with the two checksums of exactly that block.
\<close>

section \<open>The generator's side\<close>

text \<open>\<open>inp\<close> is the opened file, \<open>n\<close> the number of rounds left, \<open>remaining\<close> the code's variable.\<close>

fun generateAndSendSums_loop ::
  "(bytes \<Rightarrow> bytes) \<Rightarrow> i32 \<Rightarrow> int \<Rightarrow> nat \<Rightarrow> int \<Rightarrow> reader \<Rightarrow> ('z conn_scheme, unit) io" where
  "generateAndSendSums_loop md4 seed B 0 remaining inp = ret ()"
| "generateAndSendSums_loop md4 seed B (Suc n) remaining inp =
     (let n1 = min B remaining
      in if n1 < 0 then fail (Panic ''slice bounds out of range'')
         else (case ReadFull (nat n1) inp of
                 (Inl e, _) \<Rightarrow> fail e
               | (Inr b, inp') \<Rightarrow>
                   (let sum1 = Checksum1 b; sum2 = Checksum2 md4 seed b
                    in ebind (WriteInt32 sum1) (\<lambda>_.
                       ebind (conn_Write sum2) (\<lambda>_.
                       generateAndSendSums_loop md4 seed B n (remaining - n1) inp')))))"

definition generateAndSendSums ::
  "(bytes \<Rightarrow> bytes) \<Rightarrow> i32 \<Rightarrow> reader \<Rightarrow> int \<Rightarrow> ('z conn_scheme, unit) io" where
  "generateAndSendSums md4 seed inp fileLen =
     (let sh = SumSizesSqroot fileLen
      in ebind (WriteTo sh) (\<lambda>_.
           generateAndSendSums_loop md4 seed (sint (BlockLength sh)) (nat (sint (ChecksumCount sh)))
             fileLen inp))"

section \<open>The sender's side\<close>

definition sum_len :: "SumHead \<Rightarrow> int \<Rightarrow> int" where
  "sum_len head i =
     (if i = sint (ChecksumCount head) - 1 \<and> RemainderLength head \<noteq> 0
      then sint (RemainderLength head) else sint (BlockLength head))"

fun receiveSums_loop :: "SumHead \<Rightarrow> nat \<Rightarrow> int \<Rightarrow> int \<Rightarrow> ('z reader_scheme, SumBuf list) io" where
  "receiveSums_loop head 0 i offset = ret []"
| "receiveSums_loop head (Suc n) i offset =
     ebind ReadInt32 (\<lambda>shortChecksum.
       let len = sum_len head i
       in ebind (make_ReadFull (sint (ChecksumLength head))) (\<lambda>s2.
          let sb = \<lparr>Offset = offset, Len = len, Index = i, Sum1 = shortChecksum,
                    Sum2 = s2 @ replicate (16 - length s2) 0\<rparr>
          in ebind (receiveSums_loop head n (i + 1) (offset + len)) (\<lambda>sbs. ret (sb # sbs))))"

definition receiveSums :: "('z reader_scheme, SumHead) io" where
  "receiveSums =
     ebind ReadFrom (\<lambda>head.
       ebind (receiveSums_loop head (nat (sint (ChecksumCount head))) 0 0) (\<lambda>sbs.
         ret (head\<lparr>Sums := sbs\<rparr>)))"

section \<open>The signature and its encoding\<close>

fun signature_from :: "(bytes \<Rightarrow> bytes) \<Rightarrow> i32 \<Rightarrow> int \<Rightarrow> int \<Rightarrow> bytes list \<Rightarrow> SumBuf list" where
  "signature_from md4 seed i offset [] = []"
| "signature_from md4 seed i offset (b # bs) =
     \<lparr>Offset = offset, Len = int (length b), Index = i, Sum1 = Checksum1 b,
      Sum2 = Checksum2 md4 seed b\<rparr> #
     signature_from md4 seed (i + 1) (offset + int (length b)) bs"

text \<open>The head the sender ends up with for the receiver's file \<open>basis\<close>.\<close>

definition signature :: "(bytes \<Rightarrow> bytes) \<Rightarrow> i32 \<Rightarrow> bytes \<Rightarrow> SumHead" where
  "signature md4 seed basis =
     (SumSizesSqroot (int (length basis)))
       \<lparr>Sums := signature_from md4 seed 0 0 (blocks (block_len (length basis)) basis)\<rparr>"

definition enc_sums :: "(bytes \<Rightarrow> bytes) \<Rightarrow> i32 \<Rightarrow> bytes list \<Rightarrow> bytes" where
  "enc_sums md4 seed bs = concat (map (\<lambda>b. le_enc 4 (Checksum1 b) @ Checksum2 md4 seed b) bs)"

lemma enc_sums_simps [simp]:
  "enc_sums md4 seed [] = []"
  "enc_sums md4 seed (b # bs) = le_enc 4 (Checksum1 b) @ Checksum2 md4 seed b @ enc_sums md4 seed bs"
  by (simp_all add: enc_sums_def)

lemma length_signature_from [simp]: "length (signature_from md4 seed i off bs) = length bs"
  by (induction bs arbitrary: i off) auto

lemma nth_signature_from:
  "j < length bs \<Longrightarrow>
     Len (signature_from md4 seed i off bs ! j) = int (length (bs ! j)) \<and>
     Sum1 (signature_from md4 seed i off bs ! j) = Checksum1 (bs ! j) \<and>
     Sum2 (signature_from md4 seed i off bs ! j) = Checksum2 md4 seed (bs ! j) \<and>
     Index (signature_from md4 seed i off bs ! j) = i + int j"
proof (induction bs arbitrary: i off j)
  case Nil
  then show ?case by simp
next
  case (Cons b bs)
  then show ?case by (cases j) auto
qed

lemma signature_from_offset:
  "j < length bs \<Longrightarrow>
     Offset (signature_from md4 seed i off bs ! j) = off + int (length (concat (take j bs)))"
proof (induction bs arbitrary: i off j)
  case Nil
  then show ?case by simp
next
  case (Cons b bs)
  then show ?case by (cases j) auto
qed

section \<open>What the generator sends\<close>

lemma generateAndSendSums_loop_wrote:
  assumes "0 < B" and "rx inp = xs @ z" and "room c = None"
  shows "\<exists>d. generateAndSendSums_loop md4 seed (int B) (length (blocks B xs)) (int (length xs)) inp c
               = (Inr (), d) \<and> wrote c (enc_sums md4 seed (blocks B xs)) d"
  using assms
proof (induction B xs arbitrary: inp c rule: blocks.induct)
  case (1 B xs)
  show ?case
  proof (cases "xs = []")
    case True
    with 1 show ?thesis by (simp add: wrote_refl)
  next
    case ne: False
    let ?b = "take B xs" and ?r = "drop B xs"
    have n1: "min (int B) (int (length xs)) = int (length ?b)" by (simp add: min.commute)
    have rem: "int (length xs) - int (length ?b) = int (length ?r)" by (simp add: min_def)
    have split: "rx inp = ?b @ ?r @ z" using 1 by simp
    have rd: "ReadFull (length ?b) inp = (Inr ?b, advance (length ?b) inp)"
      using split by (rule ReadFull_append) simp
    have len: "length (blocks B xs) = Suc (length (blocks B ?r))"
      using ne "1.prems"(1) by (simp add: blocks_Cons)
    let ?c = "emit (Checksum2 md4 seed ?b) (emit (le_enc 4 (Checksum1 ?b)) c)"
    have w: "wrote c (le_enc 4 (Checksum1 ?b) @ Checksum2 md4 seed ?b) ?c"
      using 1 by (simp add: wrote_def)
    have "rx (advance (length ?b) inp) = ?r @ z" using split by simp
    then obtain d where d: "generateAndSendSums_loop md4 seed (int B) (length (blocks B ?r))
        (int (length ?r)) (advance (length ?b) inp) ?c = (Inr (), d)"
      "wrote ?c (enc_sums md4 seed (blocks B ?r)) d"
      using "1.IH" [of "advance (length ?b) inp" ?c] ne "1.prems" by auto
    have "generateAndSendSums_loop md4 seed (int B) (length (blocks B xs)) (int (length xs)) inp c
        = (Inr (), d)"
      unfolding len generateAndSendSums_loop.simps Let_def n1 rem nat_int rd
      using d(1) "1.prems"(3) by (simp add: ebind_def WriteInt32_ok conn_Write_ok)
    with wrote_trans [OF w d(2)] ne "1.prems" show ?thesis by (simp add: blocks_Cons)
  qed
qed

lemma generateAndSendSums_wrote:
  assumes "length basis < 2 ^ 52" and "rx inp = basis @ z" and "room c = None"
  shows "\<exists>d. generateAndSendSums md4 seed inp (int (length basis)) c = (Inr (), d) \<and>
    wrote c (enc_head (SumSizesSqroot (int (length basis))) @
             enc_sums md4 seed (blocks (block_len (length basis)) basis)) d"
proof -
  let ?n = "length basis" and ?sh = "SumSizesSqroot (int (length basis))"
  let ?B = "block_len ?n" and ?c = "emit (enc_head ?sh) c"
  have r: "room ?c = None" using assms(3) by simp
  obtain d where d: "generateAndSendSums_loop md4 seed (int ?B) (length (blocks ?B basis))
      (int ?n) inp ?c = (Inr (), d)" "wrote ?c (enc_sums md4 seed (blocks ?B basis)) d"
    using generateAndSendSums_loop_wrote [OF block_len_pos(1) assms(2) r] by blast
  have "generateAndSendSums md4 seed inp (int ?n) c = (Inr (), d)"
    using d(1) assms(3)
    by (simp add: generateAndSendSums_def Let_def ebind_def WriteTo_def WriteString_ok
        SumSizesSqroot_fields [OF assms(1)] length_blocks)
  with wrote_trans [OF wrote_emit [OF assms(3)] d(2)] show ?thesis by auto
qed

section \<open>What the sender reads\<close>

lemma receiveSums_loop_signature:
  assumes md4: "\<And>x. length (md4 x) = 16" and cl: "sint (ChecksumLength head) = 16"
    and "\<And>j. j < length bs \<Longrightarrow> sum_len head (i + int j) = int (length (bs ! j))"
    and "rx c = enc_sums md4 seed bs @ q"
  shows "receiveSums_loop head (length bs) i off c =
    (Inr (signature_from md4 seed i off bs), advance (length (enc_sums md4 seed bs)) c)"
  using assms(3,4)
proof (induction bs arbitrary: i off c)
  case Nil
  then show ?case by simp
next
  case (Cons b bs)
  let ?c1 = "advance 4 c" and ?s2 = "Checksum2 md4 seed b"
  have len16: "length ?s2 = 16" by (simp add: Checksum2_def md4)
  have rx: "rx c = le_enc 4 (Checksum1 b) @ ?s2 @ enc_sums md4 seed bs @ q"
    using Cons.prems(2) by simp
  have r1: "ReadInt32 c = (Inr (Checksum1 b), ?c1)" using rx by (rule ReadInt32_enc)
  have "rx ?c1 = ?s2 @ enc_sums md4 seed bs @ q" using rx by simp
  then have r2: "make_ReadFull 16 ?c1 = (Inr ?s2, advance 16 ?c1)"
    using ReadFull_append [of ?c1 ?s2 _ 16] by (simp add: make_ReadFull_def len16)
  have len: "sum_len head i = int (length b)" using Cons.prems(1) [of 0] by simp
  have "rx (advance 16 ?c1) = enc_sums md4 seed bs @ q" using rx by (simp add: len16)
  moreover have "\<And>j. j < length bs \<Longrightarrow> sum_len head (i + 1 + int j) = int (length (bs ! j))"
    using Cons.prems(1) [of "Suc j" for j] by (simp add: algebra_simps)
  ultimately have ih: "receiveSums_loop head (length bs) (i + 1) (off + int (length b)) (advance 16 ?c1)
      = (Inr (signature_from md4 seed (i + 1) (off + int (length b)) bs),
         advance (length (enc_sums md4 seed bs)) (advance 16 ?c1))"
    by (intro Cons.IH)
  show ?case using r2 ih by (simp add: ebind_def r1 Let_def cl len len16 add.assoc)
qed

lemma receiveSums_signature:
  assumes md4: "\<And>x. length (md4 x) = 16" and n: "length basis < 2 ^ 52"
    and rx: "rx c = enc_head (SumSizesSqroot (int (length basis))) @
             enc_sums md4 seed (blocks (block_len (length basis)) basis) @ q"
  shows "\<exists>k. receiveSums c = (Inr (signature md4 seed basis), advance k c) \<and> drop k (rx c) = q"
proof -
  let ?sh = "SumSizesSqroot (int (length basis))" and ?B = "block_len (length basis)"
  let ?bs = "blocks ?B basis" and ?c = "advance 16 c"
  note f = SumSizesSqroot_fields [OF n]
  have rd: "ReadFrom c = (Inr ?sh, ?c)"
    using ReadFrom_enc_head [OF rx SumSizesSqroot_ok [OF n]] f(5) by simp
  have cnt: "int (length ?bs) = sint (ChecksumCount ?sh)" by (simp add: f length_blocks)
  have rem0: "RemainderLength ?sh = 0 \<longleftrightarrow> length basis mod ?B = 0"
  proof -
    have "RemainderLength ?sh = 0 \<longleftrightarrow> sint (RemainderLength ?sh) = 0"
      by (rule signed_eq_0_iff [symmetric])
    then show ?thesis by (simp add: f)
  qed
  have lens: "sum_len ?sh (0 + int j) = int (length (?bs ! j))" if "j < length ?bs" for j
  proof -
    have "int j = sint (ChecksumCount ?sh) - 1 \<longleftrightarrow> j = length ?bs - 1"
      using that by (simp add: cnt [symmetric], linarith)
    with blocks_last_len [OF block_len_pos(1) that] rem0 show ?thesis
      by (simp add: sum_len_def f(1,3))
  qed
  have "rx ?c = enc_sums md4 seed ?bs @ q" using rx by simp
  from receiveSums_loop_signature [OF md4 f(4) lens this, of 0]
  have "receiveSums_loop ?sh (nat (sint (ChecksumCount ?sh))) 0 0 ?c =
      (Inr (signature_from md4 seed 0 0 ?bs), advance (length (enc_sums md4 seed ?bs)) ?c)"
    using cnt by (metis nat_int)
  with rd have "receiveSums c = (Inr (signature md4 seed basis),
      advance (16 + length (enc_sums md4 seed ?bs)) c)"
    by (simp add: receiveSums_def ebind_def signature_def)
  moreover have "drop (16 + length (enc_sums md4 seed ?bs)) (rx c) = q" using rx by simp
  ultimately show ?thesis by blast
qed

section \<open>The signature arrives\<close>

text \<open>
  C11: generateAndSendSums followed by receiveSums: the sender ends up with one entry for every block
  of the receiver's file, with its offset, length, index and the two checksums of exactly that block,
  and the rest of its input untouched.
\<close>
theorem signature_delivered:
  assumes "\<forall>x. length (md4 x) = 16" and "length basis < 2 ^ 52" and "room c = None" and "sent c = []"
  shows "\<exists>c'. generateAndSendSums md4 seed \<lparr>rx = basis, nread = 0\<rparr> (int (length basis)) c = (Inr (), c') \<and>
    (\<forall>(d :: conn) q. rx d = sent c' @ q \<longrightarrow>
      (\<exists>head d'. receiveSums d = (Inr head, d') \<and> rx d' = q \<and>
         (let bs = blocks (max (isqrt (length basis)) 700) basis
          in length (Sums head) = length bs \<and> concat bs = basis \<and>
             (\<forall>j < length bs. Sums head ! j =
                \<lparr>Offset = int (length (concat (take j bs))), Len = int (length (bs ! j)), Index = int j,
                  Sum1 = Checksum1 (bs ! j), Sum2 = Checksum2 md4 seed (bs ! j)\<rparr>))))"
proof -
  let ?bs = "blocks (max (isqrt (length basis)) 700) basis" and ?h = "signature md4 seed basis"
  obtain c' where c': "generateAndSendSums md4 seed \<lparr>rx = basis, nread = 0\<rparr> (int (length basis)) c = (Inr (), c')"
    "wrote c (enc_head (SumSizesSqroot (int (length basis))) @
             enc_sums md4 seed (blocks (block_len (length basis)) basis)) c'"
    using generateAndSendSums_wrote [OF assms(2) _ assms(3), of "\<lparr>rx = basis, nread = 0\<rparr>" "[]"] by auto
  have "Sums ?h ! j = \<lparr>Offset = int (length (concat (take j ?bs))), Len = int (length (?bs ! j)), Index = int j,
        Sum1 = Checksum1 (?bs ! j), Sum2 = Checksum2 md4 seed (?bs ! j)\<rparr>" if "j < length ?bs" for j
    using nth_signature_from [OF that, of md4 seed 0 0] signature_from_offset [OF that, of md4 seed 0 0]
    by (simp add: signature_def block_len_def)
  moreover have "length (Sums ?h) = length ?bs" "concat ?bs = basis"
    by (simp_all add: signature_def block_len_def concat_blocks)
  moreover have "\<exists>d'. receiveSums d = (Inr ?h, d') \<and> rx d' = q" if rx: "rx d = sent c' @ q" for d :: conn and q
  proof -
    have "rx d = enc_head (SumSizesSqroot (int (length basis))) @
        enc_sums md4 seed (blocks (block_len (length basis)) basis) @ q"
      using c'(2) assms(4) rx by (simp add: wrote_def)
    from receiveSums_signature [OF _ assms(2) this] assms(1) obtain k where
      "receiveSums d = (Inr ?h, advance k d)" "drop k (rx d) = q" by blast
    then show ?thesis by auto
  qed
  ultimately have "length (Sums ?h) = length ?bs \<and> concat ?bs = basis \<and>
      (\<forall>j < length ?bs. Sums ?h ! j =
         \<lparr>Offset = int (length (concat (take j ?bs))), Len = int (length (?bs ! j)), Index = int j,
           Sum1 = Checksum1 (?bs ! j), Sum2 = Checksum2 md4 seed (?bs ! j)\<rparr>)"
    and "\<And>(d :: conn) q. rx d = sent c' @ q \<Longrightarrow> \<exists>d'. receiveSums d = (Inr ?h, d') \<and> rx d' = q"
    by blast+
  with c'(1) show ?thesis unfolding Let_def by blast
qed

theorem signature_delivered_witness:
  "\<exists>c'. generateAndSendSums (\<lambda>x. replicate 16 7) 666 \<lparr>rx = [1, 2, 3], nread = 0\<rparr> (int (length [1, 2, 3 :: byte]))
      \<lparr>rx = [], nread = 0, tx = [], room = None\<rparr> = (Inr (), c') \<and>
    (\<forall>(d :: conn) q. rx d = sent c' @ q \<longrightarrow>
      (\<exists>head d'. receiveSums d = (Inr head, d') \<and> rx d' = q \<and>
         (let bs = blocks (max (isqrt (length [1, 2, 3 :: byte])) 700) [1, 2, 3]
          in length (Sums head) = length bs \<and> concat bs = [1, 2, 3] \<and>
             (\<forall>j < length bs. Sums head ! j =
                \<lparr>Offset = int (length (concat (take j bs))), Len = int (length (bs ! j)), Index = int j,
                  Sum1 = Checksum1 (bs ! j), Sum2 = Checksum2 (\<lambda>x. replicate 16 7) 666 (bs ! j)\<rparr>))))"
  by (rule signature_delivered) (simp_all add: sent_def)

end
