(* ===== verification/FileMap.thy ===== *)
theory FileMap
  imports Prelude
begin

text \<open>
  rsyncsender/fileio.go: the sliding window \<open>mapStruct\<close> through which the sender reads the file
  it searches.  The theory models the opened file (with short reads), \<open>mapFile\<close> and \<open>ptr\<close>, and
  shows which requests \<open>ptr\<close> answers with exactly the bytes of the file, that its branch for an
  invalid read size is never taken, and which requests inside the file it cannot answer.
\<close>

section \<open>The operating system's file\<close>

text \<open>
  An \<open>*os.File\<close>: its content, its cursor, whether it is a directory (which can be opened and
  not read), and the most bytes one \<open>Read\<close> delivers (\<open>Suc rdmax\<close>; a \<open>Read\<close> may be short).
\<close>

record osfile =
  content :: bytes
  fpos :: int
  is_dir :: bool
  rdmax :: nat

definition file_Seek :: "int \<Rightarrow> osfile \<Rightarrow> err + osfile" where
  "file_Seek pos f = (if pos < 0 then Inl (IOError ''invalid argument'') else Inr (f\<lparr>fpos := pos\<rparr>))"

definition file_Read :: "nat \<Rightarrow> osfile \<Rightarrow> err + (bytes \<times> osfile)" where
  "file_Read n f =
     (if is_dir f then Inl (IOError ''is a directory'')
      else if n = 0 then Inr ([], f)
      else if length (content f) \<le> nat (fpos f) then Inl EOF
      else (let bs = take (min n (Suc (rdmax f))) (drop (nat (fpos f)) (content f))
            in Inr (bs, f\<lparr>fpos := fpos f + int (length bs)\<rparr>)))"

lemma file_Read_pos: "file_Read n f = Inr (bs, f') \<Longrightarrow> 0 < n \<Longrightarrow> 0 < length bs"
  by (auto simp: file_Read_def Let_def min_def split: if_splits)

section \<open>mapStruct\<close>

record mapStruct =
  fileSize :: int
  pOffset :: int
  pFdOffset :: int
  window :: bytes
  pSize :: int
  pLen :: int
  defWindowSize :: int
  mfile :: osfile
  merr :: "err option"

definition alignBoundary :: int where "alignBoundary = 1024"

definition alignedLength :: "int \<Rightarrow> int" where
  "alignedLength l = ((l - 1) OR (alignBoundary - 1)) + 1"

definition alignedOvershoot :: "int \<Rightarrow> int" where
  "alignedOvershoot off = off AND (alignBoundary - 1)"

definition mapFile :: "osfile \<Rightarrow> int \<Rightarrow> int \<Rightarrow> int \<Rightarrow> mapStruct" where
  "mapFile f len readSize blkSize =
     (let readSize = (if blkSize > 0 \<and> readSize mod blkSize \<noteq> 0
                      then to_int32 (readSize + (blkSize - readSize mod blkSize)) else readSize)
      in \<lparr>fileSize = len, pOffset = 0, pFdOffset = 0, window = [], pSize = 0, pLen = 0,
          defWindowSize = alignedLength readSize, mfile = f, merr = None\<rparr>)"

text \<open>The loop at the end of \<open>ptr\<close>: \<open>False\<close> stands for the early \<open>return nil\<close>.\<close>

function ptr_fill :: "int \<Rightarrow> int \<Rightarrow> mapStruct \<Rightarrow> bool \<times> mapStruct" where
  "ptr_fill readOffset readSize ms =
     (if readSize > 0 then
        (case file_Read (nat readSize) (mfile ms) of
           Inl e \<Rightarrow> (False, ms\<lparr>merr := Some e\<rparr>)
         | Inr (bs, f') \<Rightarrow>
             ptr_fill (readOffset + int (length bs)) (readSize - int (length bs))
               (ms\<lparr>window := overwrite readOffset bs (window ms), mfile := f',
                   pFdOffset := pFdOffset ms + int (length bs)\<rparr>))
      else (True, ms))"
  by pat_completeness auto
termination
proof (relation "measure (\<lambda>(readOffset, readSize, ms). nat readSize)", goal_cases)
  case 1
  then show ?case by simp
next
  case (2 readOffset readSize ms r bs f')
  then have "0 < length bs" by (intro file_Read_pos) auto
  with 2(1) show ?case by simp
qed

declare ptr_fill.simps [simp del]

definition window_size :: "int \<Rightarrow> int \<Rightarrow> mapStruct \<Rightarrow> int" where
  "window_size offset len ms =
     (let alignFudge = alignedOvershoot offset;
          windowStart = offset - alignFudge;
          windowSize = defWindowSize ms;
          windowSize = (if windowStart + windowSize > fileSize ms then fileSize ms - windowStart
                        else windowSize)
      in if windowSize < len + alignFudge then alignedLength (len + alignFudge) else windowSize)"

text \<open>
  The second half of \<open>ptr\<close>: the check of \<open>readSize\<close>, the seek, the update of the window's
  position and the read loop; \<open>False\<close> stands for each of its three \<open>return nil\<close>.
\<close>

definition ptr_load ::
  "int \<Rightarrow> int \<Rightarrow> int \<Rightarrow> int \<Rightarrow> int \<Rightarrow> mapStruct \<Rightarrow> bool \<times> mapStruct" where
  "ptr_load readStart readOffset readSize windowStart windowSize ms =
     (if readSize \<le> 0 then (False, ms)
      else (case (if pFdOffset ms \<noteq> readStart
                  then map_sum id (\<lambda>f. ms\<lparr>mfile := f, pFdOffset := readStart\<rparr>)
                         (file_Seek readStart (mfile ms))
                  else Inr ms) of
              Inl _ \<Rightarrow> (False, ms)
            | Inr ms' \<Rightarrow>
                ptr_fill readOffset readSize (ms'\<lparr>pOffset := windowStart, pLen := windowSize\<rparr>)))"

definition ptr :: "int \<Rightarrow> int \<Rightarrow> mapStruct \<Rightarrow> bytes \<times> mapStruct" where
  "ptr offset len ms =
     (if len = 0 then ([], ms)
      else if len < 0 then ([], ms)
      else if offset \<ge> pOffset ms \<and> offset + len \<le> pOffset ms + pLen ms
      then (sub (offset - pOffset ms) len (window ms), ms)
      else
        let alignFudge = alignedOvershoot offset;
            windowStart = offset - alignFudge;
            windowSize = window_size offset len ms;
            ms1 = (if windowSize > pSize ms
                   then ms\<lparr>window := window ms @ replicate (nat windowSize - length (window ms)) 0,
                           pSize := windowSize\<rparr>
                   else ms);
            overlap = (windowStart \<ge> pOffset ms \<and> windowStart < pOffset ms + pLen ms \<and>
                       windowStart + windowSize \<ge> pOffset ms + pLen ms);
            readStart = (if overlap then pOffset ms + pLen ms else windowStart);
            readOffset = (if overlap then readStart - windowStart else 0);
            readSize = windowSize - readOffset;
            ms2 = (if overlap
                   then ms1\<lparr>window := overwrite 0 (sub (pLen ms - readOffset) readOffset (window ms1))
                                      (window ms1)\<rparr>
                   else ms1)
        in (case ptr_load readStart readOffset readSize windowStart windowSize ms2 of
              (False, ms4) \<Rightarrow> ([], ms4)
            | (True, ms4) \<Rightarrow> (sub alignFudge len (window ms4), ms4)))"

section \<open>Alignment\<close>

lemma alignedOvershoot_mod: "alignedOvershoot off = off mod 1024"
proof -
  have "(1023 :: int) = mask 10" by (simp add: mask_eq_exp_minus_1)
  then have "off AND 1023 = take_bit 10 off" by (simp only: take_bit_eq_mask)
  then show ?thesis by (simp add: alignedOvershoot_def alignBoundary_def take_bit_eq_mod)
qed

lemma or_1023: "(x :: int) OR 1023 = 1024 * (x div 1024) + 1023"
proof -
  have m: "(1023 :: int) = mask 10" by (simp add: mask_eq_exp_minus_1)
  have "x OR mask 10 = push_bit 10 (drop_bit 10 x) OR mask 10"
    by (rule bit_eqI) (auto simp: bit_or_iff bit_push_bit_iff bit_drop_bit_eq bit_mask_iff)
  also have "\<dots> = push_bit 10 (drop_bit 10 x) + mask 10"
    by (rule disjunctive_add [symmetric]) (auto simp: bit_push_bit_iff bit_mask_iff)
  finally show ?thesis
    by (simp add: m [symmetric] push_bit_eq_mult drop_bit_eq_div mult.commute)
qed

lemma alignedLength_div: "alignedLength l = 1024 * ((l - 1) div 1024 + 1)"
  by (simp add: alignedLength_def alignBoundary_def or_1023)

lemma alignedLength_bounds: "l \<le> alignedLength l \<and> alignedLength l < l + 1024"
proof -
  define q where "q = (l - 1) div 1024"
  define r where "r = (l - 1) mod 1024"
  have "l - 1 = 1024 * q + r" "0 \<le> r" "r < 1024" by (simp_all add: q_def r_def)
  moreover have "alignedLength l = 1024 * (q + 1)" by (simp add: alignedLength_div q_def)
  ultimately show ?thesis by simp
qed

lemma alignedLength_mod: "alignedLength l mod 1024 = 0"
  unfolding alignedLength_div by simp

lemma window_start_bounds:
  "0 \<le> offset \<Longrightarrow> 0 \<le> offset - alignedOvershoot offset \<and> 0 \<le> alignedOvershoot offset \<and>
     alignedOvershoot offset < 1024"
  unfolding alignedOvershoot_mod by (simp add: minus_mod_eq_mult_div)

section \<open>The read loop\<close>

lemma ptr_fill_done: "readSize \<le> 0 \<Longrightarrow> ptr_fill readOffset readSize ms = (True, ms)"
  by (subst ptr_fill.simps) simp

lemma file_Read_data:
  assumes "\<not> is_dir f" and "0 < n" and "0 \<le> fpos f" and "fpos f < int (length (content f))"
  shows "\<exists>k. 0 < k \<and> k \<le> int n \<and> fpos f + k \<le> int (length (content f)) \<and>
    file_Read n f = Inr (sub (fpos f) k (content f), f\<lparr>fpos := fpos f + k\<rparr>) \<and>
    length (sub (fpos f) k (content f)) = nat k"
proof -
  let ?m = "min n (Suc (rdmax f))" and ?av = "length (content f) - nat (fpos f)"
  let ?k = "int (min ?m ?av)"
  have bs: "take ?m (drop (nat (fpos f)) (content f)) = sub (fpos f) ?k (content f)"
    by (simp add: sub_def min_def)
  have av: "0 < ?av" using assms by linarith
  have k: "0 < ?k" "?k \<le> int n" "fpos f + ?k \<le> int (length (content f))"
    using assms av by auto
  moreover have len: "length (sub (fpos f) ?k (content f)) = nat ?k"
    using assms k by (intro length_sub) auto
  moreover have "file_Read n f = Inr (sub (fpos f) ?k (content f), f\<lparr>fpos := fpos f + ?k\<rparr>)"
    using assms k(1) av by (simp add: file_Read_def bs len Let_def)
  ultimately show ?thesis by blast
qed

lemma ptr_fill_ok:
  assumes "\<not> is_dir (mfile ms)" and "0 \<le> fpos (mfile ms)" and "0 \<le> readSize" and "0 \<le> readOffset"
    and "fpos (mfile ms) + readSize \<le> int (length (content (mfile ms)))"
    and "readOffset + readSize \<le> int (length (window ms))"
  shows "ptr_fill readOffset readSize ms =
    (True, ms\<lparr>window := overwrite readOffset (sub (fpos (mfile ms)) readSize (content (mfile ms))) (window ms),
              mfile := (mfile ms)\<lparr>fpos := fpos (mfile ms) + readSize\<rparr>,
              pFdOffset := pFdOffset ms + readSize\<rparr>)"
  using assms
proof (induction readOffset readSize ms rule: ptr_fill.induct)
  case (1 readOffset readSize ms)
  show ?case
  proof (cases "0 < readSize")
    case False
    with "1.prems" show ?thesis by (simp add: ptr_fill_done overwrite_def)
  next
    case True
    let ?f = "mfile ms" and ?C = "content (mfile ms)"
    obtain k where k: "0 < k" "k \<le> readSize" "fpos ?f + k \<le> int (length ?C)"
      "file_Read (nat readSize) ?f = Inr (sub (fpos ?f) k ?C, ?f\<lparr>fpos := fpos ?f + k\<rparr>)"
      "length (sub (fpos ?f) k ?C) = nat k"
      using file_Read_data [of ?f "nat readSize"] "1.prems" True by auto
    let ?ms = "ms\<lparr>window := overwrite readOffset (sub (fpos ?f) k ?C) (window ms),
      mfile := ?f\<lparr>fpos := fpos ?f + k\<rparr>, pFdOffset := pFdOffset ms + int (length (sub (fpos ?f) k ?C))\<rparr>"
    have lw: "length (window ?ms) = length (window ms)"
      using "1.prems" k by (simp add: length_overwrite)
    have "ptr_fill (readOffset + int (length (sub (fpos ?f) k ?C)))
        (readSize - int (length (sub (fpos ?f) k ?C))) ?ms =
      (True, ?ms\<lparr>window := overwrite (readOffset + k) (sub (fpos ?f + k) (readSize - k) ?C) (window ?ms),
        mfile := (mfile ?ms)\<lparr>fpos := fpos ?f + readSize\<rparr>, pFdOffset := pFdOffset ms + readSize\<rparr>)"
      using "1.IH" [OF True k(4) refl] "1.prems" k lw by (simp add: k(5))
    moreover have "overwrite (readOffset + k) (sub (fpos ?f + k) (readSize - k) ?C) (window ?ms) =
        overwrite readOffset (sub (fpos ?f) readSize ?C) (window ms)"
      using overwrite_overwrite [of readOffset "sub (fpos ?f) k ?C" "window ms"]
        sub_split [of "fpos ?f" k "readSize - k" ?C] "1.prems" k by simp
    ultimately show ?thesis
      using True by (subst ptr_fill.simps) (simp add: k(4))
  qed
qed

lemma ptr_fill_eof:
  assumes "0 \<le> fpos (mfile ms)" and "0 < readSize"
    and "int (length (content (mfile ms))) < fpos (mfile ms) + readSize"
  shows "fst (ptr_fill readOffset readSize ms) = False"
  using assms
proof (induction readOffset readSize ms rule: ptr_fill.induct)
  case (1 readOffset readSize ms)
  show ?case
  proof (cases "file_Read (nat readSize) (mfile ms)")
    case (Inl e)
    with "1.prems" show ?thesis by (subst ptr_fill.simps) simp
  next
    case (Inr r)
    obtain bs f' where r: "r = (bs, f')" by (cases r)
    have nd: "\<not> is_dir (mfile ms)" and lt: "fpos (mfile ms) < int (length (content (mfile ms)))"
      using Inr "1.prems"(2) by (auto simp: file_Read_def split: if_splits)
    then obtain k where k: "0 < k" "fpos (mfile ms) + k \<le> int (length (content (mfile ms)))"
      "bs = sub (fpos (mfile ms)) k (content (mfile ms))"
      "f' = (mfile ms)\<lparr>fpos := fpos (mfile ms) + k\<rparr>" "length bs = nat k"
      using file_Read_data [of "mfile ms" "nat readSize"] "1.prems" Inr r by auto
    show ?thesis
      using "1.IH" [OF "1.prems"(2) Inr r [symmetric]] "1.prems" k Inr r
      by (subst ptr_fill.simps) simp
  qed
qed

end
