(* ===== verification/WindowSpec.thy ===== *)
theory WindowSpec
  imports FileMap
begin

text \<open>
  Correctness of the sliding window of rsyncsender/fileio.go.  \<open>ms_ok C ms\<close> is the invariant of
  a \<open>mapStruct\<close> over a file with content \<open>C\<close>: the window holds the bytes of the file at
  \<open>pOffset\<close>.  A request inside the file is answered with the bytes of the file and keeps the
  invariant, provided the window that \<open>ptr\<close> asks for does not reach beyond the end of the file
  (\<open>window_fits\<close>); where it does, and the request is not in the window yet, the answer is nil.
\<close>

section \<open>The invariant\<close>

definition ms_ok :: "bytes \<Rightarrow> mapStruct \<Rightarrow> bool" where
  "ms_ok C ms \<longleftrightarrow>
     content (mfile ms) = C \<and> \<not> is_dir (mfile ms) \<and> fileSize ms = int (length C) \<and>
     fpos (mfile ms) = pFdOffset ms \<and> 0 \<le> pFdOffset ms \<and>
     pSize ms = int (length (window ms)) \<and> 0 < defWindowSize ms \<and>
     0 \<le> pOffset ms \<and> 0 \<le> pLen ms \<and> pLen ms \<le> pSize ms \<and> pOffset ms + pLen ms \<le> int (length C) \<and>
     take (nat (pLen ms)) (window ms) = sub (pOffset ms) (pLen ms) C"

definition window_fits :: "int \<Rightarrow> int \<Rightarrow> mapStruct \<Rightarrow> bool" where
  "window_fits offset len ms \<longleftrightarrow>
     offset - alignedOvershoot offset + window_size offset len ms \<le> fileSize ms"

definition in_window :: "int \<Rightarrow> int \<Rightarrow> mapStruct \<Rightarrow> bool" where
  "in_window offset len ms \<longleftrightarrow> pOffset ms \<le> offset \<and> offset + len \<le> pOffset ms + pLen ms"

lemma ms_ok_mapFile:
  assumes "content f = C" and "\<not> is_dir f" and "fpos f = 0"
    and "0 < defWindowSize (mapFile f (int (length C)) r b)"
  shows "ms_ok C (mapFile f (int (length C)) r b)"
  using assms by (simp add: ms_ok_def mapFile_def Let_def)

lemma window_size_ge: "len + alignedOvershoot offset \<le> window_size offset len ms"
  using alignedLength_bounds [of "len + alignedOvershoot offset"]
  by (auto simp: window_size_def Let_def)

text \<open>The two ways in which a window fits: the default window is large enough, or aligning the
  request does not pass the end of the file.\<close>

lemma window_fits_default:
  assumes "0 < len" and "offset + len \<le> fileSize ms"
    and "len + alignedOvershoot offset \<le> defWindowSize ms"
  shows "window_fits offset len ms"
  using assms by (auto simp: window_fits_def window_size_def Let_def)

lemma window_fits_aligned:
  assumes "0 < len" and "offset + len \<le> fileSize ms"
    and "offset - alignedOvershoot offset + alignedLength (len + alignedOvershoot offset) \<le> fileSize ms"
  shows "window_fits offset len ms"
  using assms by (auto simp: window_fits_def window_size_def Let_def)

lemma window_fits_size_aligned:
  assumes "0 < len" and "offset + len \<le> fileSize ms" and "fileSize ms mod 1024 = 0"
  shows "window_fits offset len ms"
proof (rule window_fits_aligned [OF assms(1,2)])
  let ?e = "offset - alignedOvershoot offset + alignedLength (len + alignedOvershoot offset)"
  have "?e < offset + len + 1024"
    using alignedLength_bounds [of "len + alignedOvershoot offset"] by linarith
  with assms(2) have lt: "?e < fileSize ms + 1024" by linarith
  obtain p where p: "offset - alignedOvershoot offset = 1024 * p"
    unfolding alignedOvershoot_mod by (metis minus_mod_eq_mult_div)
  obtain q where q: "alignedLength (len + alignedOvershoot offset) = 1024 * q"
    unfolding alignedLength_div by blast
  obtain m where m: "fileSize ms = 1024 * m" using assms(3) by auto
  have "1024 * p + 1024 * q < 1024 * m + 1024" using lt by (simp only: p q m)
  then have "p + q \<le> m" by linarith
  then have "1024 * p + 1024 * q \<le> 1024 * m" by linarith
  then show "?e \<le> fileSize ms" by (simp only: p q m)
qed

section \<open>Requests that are answered\<close>

lemma ptr_cached:
  assumes ok: "ms_ok C ms" and "0 < len" and "in_window offset len ms"
  shows "ptr offset len ms = (sub offset len C, ms)"
proof -
  let ?o = "offset - pOffset ms"
  have b: "0 \<le> ?o" "?o + len \<le> pLen ms" using assms(3) by (auto simp: in_window_def)
  have "sub ?o len (window ms) = sub ?o len (sub 0 (pLen ms) (window ms))"
    using b by (subst sub_sub) auto
  also have "sub 0 (pLen ms) (window ms) = sub (pOffset ms) (pLen ms) C"
    using ok by (simp add: ms_ok_def sub_def)
  also have "sub ?o len \<dots> = sub offset len C"
    using b ok by (subst sub_sub) (auto simp: ms_ok_def)
  finally show ?thesis
    using assms by (simp add: ptr_def in_window_def)
qed

text \<open>The enlarged buffer, and what the move to the front of an overlapping window leaves in it.\<close>

definition grown :: "int \<Rightarrow> mapStruct \<Rightarrow> mapStruct" where
  "grown windowSize ms =
     (if windowSize > pSize ms
      then ms\<lparr>window := window ms @ replicate (nat windowSize - length (window ms)) 0,
              pSize := windowSize\<rparr>
      else ms)"

lemma grown_simps [simp]:
  "pOffset (grown w ms) = pOffset ms" "pLen (grown w ms) = pLen ms" "mfile (grown w ms) = mfile ms"
  "pFdOffset (grown w ms) = pFdOffset ms" "fileSize (grown w ms) = fileSize ms"
  "defWindowSize (grown w ms) = defWindowSize ms"
  by (simp_all add: grown_def)

lemma grown_ok:
  assumes "ms_ok C ms"
  shows "ms_ok C (grown w ms)" and "w \<le> int (length (window (grown w ms)))"
  using assms by (auto simp: ms_ok_def grown_def)

lemma overlap_sub:
  assumes "ms_ok C ms" and "pOffset ms \<le> ws" and "ws \<le> pOffset ms + pLen ms"
  defines "ro \<equiv> pOffset ms + pLen ms - ws"
  shows "sub (pLen ms - ro) ro (window ms) = sub ws ro C"
proof -
  have o: "pLen ms - ro = ws - pOffset ms" by (simp add: ro_def)
  have "sub (ws - pOffset ms) ro (window ms) = sub (ws - pOffset ms) ro (sub 0 (pLen ms) (window ms))"
    using assms by (subst sub_sub) auto
  also have "sub 0 (pLen ms) (window ms) = sub (pOffset ms) (pLen ms) C"
    using assms(1) by (simp add: ms_ok_def sub_def)
  also have "sub (ws - pOffset ms) ro \<dots> = sub ws ro C"
    using assms by (subst sub_sub) (auto simp: ms_ok_def)
  finally show ?thesis by (simp add: o)
qed

text \<open>What a successful refill leaves behind.\<close>

definition refilled :: "bytes \<Rightarrow> int \<Rightarrow> int \<Rightarrow> mapStruct \<Rightarrow> mapStruct" where
  "refilled C ws wz ms =
     (grown wz ms)\<lparr>window := overwrite 0 (sub ws wz C) (window (grown wz ms)),
        pOffset := ws, pLen := wz, mfile := (mfile ms)\<lparr>fpos := ws + wz\<rparr>, pFdOffset := ws + wz\<rparr>"

lemma refilled_ok:
  assumes "ms_ok C ms" and "0 \<le> ws" and "0 \<le> wz" and "ws + wz \<le> int (length C)"
  shows "ms_ok C (refilled C ws wz ms)"
proof -
  have len: "length (sub ws wz C) = nat wz" using assms by (intro length_sub) auto
  have "nat wz \<le> length (window (grown wz ms))" using grown_ok(2) [OF assms(1), of wz] by simp
  then have "length (overwrite 0 (sub ws wz C) (window (grown wz ms))) = length (window (grown wz ms))"
    by (intro length_overwrite) (simp add: len)
  moreover have "take (nat wz) (overwrite 0 (sub ws wz C) (window (grown wz ms))) = sub ws wz C"
    by (simp add: overwrite_def len)
  ultimately show ?thesis
    using assms grown_ok [OF assms(1), of wz] by (simp add: ms_ok_def refilled_def)
qed

lemma ptr_load_ok:
  assumes "\<not> is_dir (mfile ms)" and "content (mfile ms) = C" and "fpos (mfile ms) = pFdOffset ms"
    and "0 \<le> rs" and "0 < n" and "0 \<le> ro"
    and "rs + n \<le> int (length C)" and "ro + n \<le> int (length (window ms))"
  shows "ptr_load rs ro n ws wz ms = (True, ms\<lparr>window := overwrite ro (sub rs n C) (window ms),
     pOffset := ws, pLen := wz, mfile := (mfile ms)\<lparr>fpos := rs + n\<rparr>, pFdOffset := rs + n\<rparr>)"
proof -
  let ?m = "ms\<lparr>mfile := (mfile ms)\<lparr>fpos := rs\<rparr>, pFdOffset := rs, pOffset := ws, pLen := wz\<rparr>"
  have id: "pFdOffset ms = rs \<Longrightarrow> ms\<lparr>pOffset := ws, pLen := wz\<rparr> = ?m"
    using assms(3) by (cases ms, cases "mfile ms") auto
  have "ptr_load rs ro n ws wz ms = ptr_fill ro n ?m"
    using assms(4,5) id by (simp add: ptr_load_def file_Seek_def)
  also have "\<dots> = (True, ?m\<lparr>window := overwrite ro (sub rs n C) (window ms),
      mfile := (mfile ms)\<lparr>fpos := rs + n\<rparr>, pFdOffset := rs + n\<rparr>)"
    using assms by (subst ptr_fill_ok) simp_all
  finally show ?thesis by simp
qed

lemma ptr_load_eof:
  assumes "fpos (mfile ms) = pFdOffset ms" and "0 \<le> rs" and "0 < n"
    and "int (length (content (mfile ms))) < rs + n"
  shows "fst (ptr_load rs ro n ws wz ms) = False"
  using assms
  by (cases "pFdOffset ms = rs") (simp_all add: ptr_load_def file_Seek_def ptr_fill_eof)

lemma ptr_refill:
  assumes ok: "ms_ok C ms" and off: "0 \<le> offset" and len: "0 < len"
    and "offset + len \<le> int (length C)"
    and miss: "\<not> in_window offset len ms" and fits: "window_fits offset len ms"
  defines "ws \<equiv> offset - alignedOvershoot offset" and "wz \<equiv> window_size offset len ms"
  shows "ptr offset len ms = (sub offset len C, refilled C ws wz ms)"
proof -
  let ?F = "alignedOvershoot offset" and ?g = "grown wz ms"
  let ?ov = "ws \<ge> pOffset ms \<and> ws < pOffset ms + pLen ms \<and> ws + wz \<ge> pOffset ms + pLen ms"
  have ge: "len + ?F \<le> wz" unfolding wz_def by (rule window_size_ge)
  have F: "0 \<le> ws" "0 \<le> ?F" using window_start_bounds [OF off] by (simp_all add: ws_def)
  have end1: "ws + wz \<le> int (length C)" using fits ok by (simp add: window_fits_def ws_def wz_def ms_ok_def)
  note gok = grown_ok [OF ok, of wz]
  note ok' = ok [unfolded ms_ok_def]
  have answer: "sub ?F len (overwrite 0 (sub ws wz C) (window ?g)) = sub offset len C"
  proof -
    have "length (sub ws wz C) = nat wz" using F end1 ge len by (intro length_sub) auto
    then have "sub ?F len (overwrite 0 (sub ws wz C) (window ?g)) = sub ?F len (sub ws wz C)"
      using F ge len by (simp add: overwrite_def sub_append)
    also have "\<dots> = sub offset len C" using F ge by (subst sub_sub) (auto simp: ws_def)
    finally show ?thesis .
  qed
  note unf = ptr_def Let_def ws_def [symmetric] wz_def [symmetric] grown_def [symmetric]
  have miss': "\<not> (pOffset ms \<le> offset \<and> offset + len \<le> pOffset ms + pLen ms)"
    using miss by (simp add: in_window_def)
  show ?thesis
  proof (cases ?ov)
    case ov: True
    define rs where "rs = pOffset ms + pLen ms"
    define ro where "ro = rs - ws"
    have ro: "0 < ro" "ro \<le> pLen ms" "rs = ws + ro" using ov by (auto simp: ro_def rs_def)
    have mv: "sub (pLen ms - ro) ro (window ?g) = sub ws ro C"
      using overlap_sub [OF gok(1), of ws] ov by (simp add: ro_def rs_def)
    have roz: "ro < wz"
      using miss' ov ge F unfolding ro_def rs_def ws_def by linarith
    let ?W = "overwrite 0 (sub ws ro C) (window ?g)"
    have lens: "length (sub ws ro C) = nat ro" using F ro ov ok' by (intro length_sub) (auto simp: rs_def)
    have lW: "length ?W = length (window ?g)"
      using gok(2) roz ro by (intro length_overwrite) (simp add: lens)
    have W: "overwrite ro (sub rs (wz - ro) C) ?W = overwrite 0 (sub ws wz C) (window ?g)"
      using overwrite_overwrite [of 0 "sub ws ro C" "window ?g" "sub rs (wz - ro) C"]
        sub_split [of ws ro "wz - ro" C] lens ro roz F gok(2) by simp
    have "ptr_load rs ro (wz - ro) ws wz (?g\<lparr>window := ?W\<rparr>) = (True, refilled C ws wz ms)"
      using ptr_load_ok [of "?g\<lparr>window := ?W\<rparr>" C rs "wz - ro" ro ws wz] ok' F ro roz end1 lW gok(2)
      by (simp add: W [unfolded ro(3)] refilled_def)
    then show ?thesis
      using ov len miss' answer by (auto simp: unf mv rs_def [symmetric] ro_def [symmetric] refilled_def)
  next
    case no: False
    have "ptr_load ws 0 wz ws wz ?g = (True, refilled C ws wz ms)"
      using ptr_load_ok [of ?g C ws wz 0 ws wz] ok' F ge len end1 gok(2)
      by (simp add: refilled_def)
    then show ?thesis
      using no len miss' answer by (auto simp: unf refilled_def)
  qed
qed

lemma ptr_ok:
  assumes ok: "ms_ok C ms" and "0 \<le> offset" and "0 < len" and "offset + len \<le> int (length C)"
    and fits: "in_window offset len ms \<or> window_fits offset len ms"
  shows "\<exists>ms'. ptr offset len ms = (sub offset len C, ms') \<and> ms_ok C ms' \<and>
    defWindowSize ms' = defWindowSize ms"
proof (cases "in_window offset len ms")
  case True
  with ptr_cached [OF ok] assms show ?thesis by blast
next
  case False
  let ?ws = "offset - alignedOvershoot offset" and ?wz = "window_size offset len ms"
  have "ptr offset len ms = (sub offset len C, refilled C ?ws ?wz ms)"
    using assms False by (intro ptr_refill) auto
  moreover have "ms_ok C (refilled C ?ws ?wz ms)"
  proof (rule refilled_ok [OF ok])
    show "0 \<le> ?ws" using window_start_bounds [OF assms(2)] by simp
    show "0 \<le> ?wz"
      using window_size_ge [of len offset ms] window_start_bounds [OF assms(2)] assms(3) by linarith
    show "?ws + ?wz \<le> int (length C)"
      using fits False ok by (simp add: window_fits_def ms_ok_def)
  qed
  ultimately show ?thesis by (simp add: refilled_def)
qed

section \<open>The branch for an invalid read size, and requests that are not answered\<close>

text \<open>
  When the window must move, the part still to be read is never empty: the branch that logs
  \<open>BUG: invalid readSize\<close> is dead.
\<close>

lemma readSize_positive:
  assumes "0 < len" and "0 \<le> offset" and "\<not> in_window offset len ms"
  defines "ws \<equiv> offset - alignedOvershoot offset" and "wz \<equiv> window_size offset len ms"
  shows "0 < wz" and
    "pOffset ms \<le> ws \<Longrightarrow> pOffset ms + pLen ms \<le> ws + wz \<Longrightarrow>
       0 < wz - (pOffset ms + pLen ms - ws)"
proof -
  have ge: "len + alignedOvershoot offset \<le> wz" unfolding wz_def by (rule window_size_ge)
  have F: "0 \<le> alignedOvershoot offset" using window_start_bounds [OF assms(2)] by simp
  show "0 < wz" using ge F assms(1) by linarith
  assume "pOffset ms \<le> ws" and "pOffset ms + pLen ms \<le> ws + wz"
  with ge F assms(3) show "0 < wz - (pOffset ms + pLen ms - ws)"
    unfolding in_window_def ws_def by linarith
qed

lemma ptr_nil:
  assumes ok: "ms_ok C ms" and off: "0 \<le> offset" and len: "0 < len"
    and miss: "\<not> in_window offset len ms" and nofit: "\<not> window_fits offset len ms"
  shows "fst (ptr offset len ms) = []"
proof -
  define ws where "ws = offset - alignedOvershoot offset"
  define wz where "wz = window_size offset len ms"
  let ?g = "grown wz ms" and ?rs = "pOffset ms + pLen ms"
  note ok' = ok [unfolded ms_ok_def]
  have F: "0 \<le> ws" using window_start_bounds [OF off] by (simp add: ws_def)
  have beyond: "int (length C) < ws + wz" using nofit ok' by (simp add: window_fits_def ws_def wz_def)
  note pos = readSize_positive [OF len off miss, folded ws_def wz_def]
  have miss': "\<not> (pOffset ms \<le> offset \<and> offset + len \<le> ?rs)"
    using miss by (simp add: in_window_def)
  note unf = ptr_def Let_def ws_def [symmetric] wz_def [symmetric] grown_def [symmetric]
  have 1: "fst (ptr_load ws 0 wz ws wz ?g) = False"
    using ok' F pos(1) beyond by (intro ptr_load_eof) auto
  have 2: "fst (ptr_load ?rs (?rs - ws) (wz - (?rs - ws)) ws wz (?g\<lparr>window := W\<rparr>)) = False"
    if "pOffset ms \<le> ws" "?rs \<le> ws + wz" for W
    using ok' F pos(2) that beyond by (intro ptr_load_eof) auto
  have nil: "fst (case L of (False, m) \<Rightarrow> ([], m) | (True, m) \<Rightarrow> (sub F len (window m), m)) = []"
    if "fst L = False" for L F using that by (cases L) auto
  show ?thesis
  proof (cases "ws \<ge> pOffset ms \<and> ws < ?rs \<and> ws + wz \<ge> ?rs")
    case True
    with len miss' show ?thesis by (auto simp: unf intro!: nil 2)
  next
    case False
    with len miss' show ?thesis by (auto simp: unf intro!: nil 1)
  qed
qed

end
