(* ===== verification/Tokens.thy ===== *)
theory Tokens
  imports Signature WindowSpec
begin

text \<open>
  The delta stream.  rsyncsender/token.go (\<open>simpleSendToken\<close>, \<open>sendToken\<close>) and \<open>matched\<close> of
  rsyncsender/match.go write it; rsyncreceiver/token.go (\<open>recvToken\<close>) reads it.  The stream is a
  sequence of tokens, literal bytes or references to a block of the receiver's file.
\<close>

section \<open>The sender's state\<close>

text \<open>
  \<open>Transfer\<close> of rsyncsender/transfer.go has the connection and \<open>lastMatch\<close>; a search adds the
  bytes written into the file's hash so far and the window onto the file.
\<close>

record transfer = conn +
  lastMatch :: int

record search = transfer +
  hsum :: bytes
  smap :: mapStruct

definition chunkSize :: int where "chunkSize = 256 * 1024"

definition ms_ptr :: "int \<Rightarrow> int \<Rightarrow> (search, bytes) io" where
  "ms_ptr offset len s = (case ptr offset len (smap s) of (b, m) \<Rightarrow> (Inr b, s\<lparr>smap := m\<rparr>))"

text \<open>\<open>fmt.Errorf("...: %v", err)\<close> around an error; a panic is not an error value.\<close>

definition ewrap :: "string \<Rightarrow> ('s, 'a) io \<Rightarrow> ('s, 'a) io" where
  "ewrap msg m s =
     (case m s of
        (Inl (Panic p), s') \<Rightarrow> (Inl (Panic p), s')
      | (Inl e, s') \<Rightarrow> (Inl (Errorf msg), s')
      | (Inr x, s') \<Rightarrow> (Inr x, s'))"

section \<open>Sending tokens\<close>

function send_chunks :: "int \<Rightarrow> int \<Rightarrow> int \<Rightarrow> (search, unit) io" where
  "send_chunks offset n l =
     (if l < n then
        (let n1 = min chunkSize (n - l)
         in ebind (ms_ptr (offset + l) (to_int32 n1)) (\<lambda>chunk.
            ebind (WriteInt32 (word_of_int n1)) (\<lambda>_.
            ebind (conn_Write chunk) (\<lambda>_.
            send_chunks offset n (l + n1)))))
      else ret ())"
  by pat_completeness auto
termination
  by (relation "measure (\<lambda>(offset, n, l). nat (n - l))") (auto simp: chunkSize_def)

declare send_chunks.simps [simp del]

definition simpleSendToken :: "int \<Rightarrow> int \<Rightarrow> int \<Rightarrow> (search, unit) io" where
  "simpleSendToken token offset n =
     ebind (if n > 0 then send_chunks offset n 0 else ret ()) (\<lambda>_.
       if token \<noteq> -2 then WriteInt32 (word_of_int (- (token + 1))) else ret ())"

definition sendToken :: "int \<Rightarrow> int \<Rightarrow> int \<Rightarrow> (search, unit) io" where
  "sendToken i offset n = simpleSendToken i offset n"

section \<open>matched\<close>

definition Sums_at :: "SumHead \<Rightarrow> int \<Rightarrow> ('s, SumBuf) io" where
  "Sums_at head i =
     (if 0 \<le> i \<and> i < int (length (Sums head)) then ret (Sums head ! nat i)
      else fail (Panic ''index out of range''))"

text \<open>\<open>for j := int64(0); j < n; j += chunkSize\<close>: the hash of what the token covers.\<close>

function hash_chunks :: "int \<Rightarrow> int \<Rightarrow> (search, unit) io" where
  "hash_chunks n j =
     (if j < n then
        (let n1 = min chunkSize (n - j)
         in (\<lambda>s. ebind (ms_ptr (lastMatch s + j) (to_int32 n1)) (\<lambda>chunk.
               ebind (\<lambda>s. (Inr (), s\<lparr>hsum := hsum s @ chunk\<rparr>)) (\<lambda>_.
               hash_chunks n (j + chunkSize))) s))
      else ret ())"
  by pat_completeness auto
termination
  by (relation "measure (\<lambda>(n, j). nat (n - j))") (auto simp: chunkSize_def)

declare hash_chunks.simps [simp del]

definition matched :: "SumHead \<Rightarrow> int \<Rightarrow> int \<Rightarrow> (search, unit) io" where
  "matched head offset i s =
     (let n = offset - lastMatch s;
          transmitAccumulated = (i < 0)
      in ebind (ewrap ''sendToken: '' (sendToken i (lastMatch s) n)) (\<lambda>_.
           if \<not> transmitAccumulated then
             ebind (Sums_at head i) (\<lambda>sb.
             ebind (hash_chunks (n + Len sb) 0) (\<lambda>_ s.
               (Inr (), s\<lparr>lastMatch := offset + Len sb\<rparr>)))
           else
             ebind (hash_chunks n 0) (\<lambda>_ s. (Inr (), s\<lparr>lastMatch := offset\<rparr>))) s)"

section \<open>Receiving tokens\<close>

definition recvToken :: "('z reader_scheme, i32 \<times> bytes) io" where
  "recvToken =
     ebind ReadInt32 (\<lambda>token.
       if sint token \<le> 0 then ret (token, [])
       else ebind (make_ReadFull (sint token)) (\<lambda>data. ret (token, data)))"

section \<open>The token stream\<close>

datatype token = Lit bytes | Copy nat

fun enc_token :: "token \<Rightarrow> bytes" where
  "enc_token (Lit b) = le_enc 4 (word_of_int (int (length b)) :: i32) @ b"
| "enc_token (Copy i) = le_enc 4 (word_of_int (- (int i + 1)) :: i32)"

definition enc_tokens :: "token list \<Rightarrow> bytes" where
  "enc_tokens ts = concat (map enc_token ts)"

definition enc_end :: bytes where
  "enc_end = le_enc 4 (0 :: i32)"

lemma enc_tokens_simps [simp]:
  "enc_tokens [] = []" "enc_tokens (t # ts) = enc_token t @ enc_tokens ts"
  "enc_tokens (ts @ us) = enc_tokens ts @ enc_tokens us"
  by (simp_all add: enc_tokens_def)

text \<open>The tokens that fit the wire: literals are not empty and no longer than a chunk.\<close>

fun token_ok :: "nat \<Rightarrow> token \<Rightarrow> bool" where
  "token_ok count (Lit b) = (b \<noteq> [] \<and> int (length b) \<le> chunkSize)"
| "token_ok count (Copy i) = (i < count \<and> count < 2 ^ 31)"

lemma recvToken_Lit:
  assumes "rx c = enc_token (Lit b) @ q" and "token_ok n (Lit b)"
  shows "recvToken c = (Inr (word_of_int (int (length b)), b), advance (length (enc_token (Lit b))) c)"
proof -
  have s: "sint (word_of_int (int (length b)) :: i32) = int (length b)"
    using assms(2) by (intro sint_word_of_int32) (auto simp: chunkSize_def)
  have rx: "rx c = le_enc 4 (word_of_int (int (length b)) :: i32) @ b @ q" using assms(1) by simp
  note r1 = ReadInt32_enc [OF rx]
  have "rx (advance 4 c) = b @ q" using rx by simp
  then have "make_ReadFull (int (length b)) (advance 4 c) = (Inr b, advance (length b) (advance 4 c))"
    by (simp add: make_ReadFull_def ReadFull_append)
  with assms(2) s show ?thesis by (simp add: recvToken_def ebind_def r1)
qed

lemma recvToken_Copy:
  assumes "rx c = enc_token (Copy i) @ q" and "token_ok n (Copy i)"
  shows "recvToken c = (Inr (word_of_int (- (int i + 1)), []), advance 4 c)"
proof -
  define w where "w = (word_of_int (- (int i + 1)) :: i32)"
  have s: "sint w = - (int i + 1)"
    unfolding w_def using assms(2) by (intro sint_word_of_int32) auto
  have "rx c = le_enc 4 w @ q" using assms(1) by (simp add: w_def del: of_int_minus of_int_add)
  then have "ReadInt32 c = (Inr w, advance 4 c)" by (rule ReadInt32_enc)
  then show ?thesis unfolding w_def [symmetric] by (simp add: recvToken_def ebind_def s)
qed

lemma recvToken_end:
  assumes "rx c = enc_end @ q"
  shows "recvToken c = (Inr (0, []), advance 4 c)"
  using ReadInt32_enc [of c 0 q] assms by (simp add: recvToken_def ebind_def enc_end_def)

end
