(* ===== verification/TokensSpec.thy ===== *)
theory TokensSpec
  imports Tokens
begin

text \<open>
  What the sender's token calls put on the wire, for a file all of whose bytes the window can
  deliver (\<open>ms_total\<close>).  \<open>spelled\<close> says that a list of tokens stands for a piece of the file:
  literals are the bytes themselves, and a block reference stands for bytes whose length, fast
  and strong checksums are those of the block.
\<close>

section \<open>Files the window can deliver\<close>

definition ms_total :: "bytes \<Rightarrow> mapStruct \<Rightarrow> bool" where
  "ms_total C m \<longleftrightarrow>
     ms_ok C m \<and> (int (length C) mod 1024 = 0 \<or> int (length C) \<le> defWindowSize m)"

lemma ptr_total:
  assumes "ms_total C m" and "0 \<le> offset" and "0 \<le> len" and "offset + len \<le> int (length C)"
  shows "\<exists>m'. ptr offset len m = (sub offset len C, m') \<and> ms_total C m'"
proof (cases "len = 0")
  case True
  with assms(1) show ?thesis by (simp add: ptr_def)
next
  case False
  then have len: "0 < len" using assms(3) by simp
  have ok: "ms_ok C m" using assms(1) by (simp add: ms_total_def)
  then have fs: "fileSize m = int (length C)" by (simp add: ms_ok_def)
  have "window_fits offset len m"
  proof (cases "int (length C) mod 1024 = 0")
    case True
    with len assms(4) fs show ?thesis by (intro window_fits_size_aligned) auto
  next
    case False
    then have "int (length C) \<le> defWindowSize m" using assms(1) by (simp add: ms_total_def)
    moreover have "alignedOvershoot offset \<le> offset"
      using window_start_bounds [OF assms(2)] by simp
    ultimately show ?thesis using len assms(4) fs by (intro window_fits_default) auto
  qed
  then obtain m' where "ptr offset len m = (sub offset len C, m')" "ms_ok C m'"
    "defWindowSize m' = defWindowSize m"
    using ptr_ok [OF ok assms(2) len assms(4)] by blast
  with assms(1) show ?thesis by (auto simp: ms_total_def)
qed

text \<open>\<open>kept C s t\<close>: a call left the search's own variables alone and the window in order.\<close>

definition kept :: "bytes \<Rightarrow> search \<Rightarrow> search \<Rightarrow> bool" where
  "kept C s t \<longleftrightarrow> lastMatch t = lastMatch s \<and> hsum t = hsum s \<and> ms_total C (smap t)"

lemma ms_ptr_total:
  assumes "ms_total C (smap s)" and "room s = None"
    and "0 \<le> offset" and "0 \<le> len" and "offset + len \<le> int (length C)"
  shows "\<exists>t. ms_ptr offset len s = (Inr (sub offset len C), t) \<and> wrote s [] t \<and> kept C s t"
proof -
  obtain m where "ptr offset len (smap s) = (sub offset len C, m)" "ms_total C m"
    using ptr_total [OF assms(1,3,4,5)] by blast
  with assms(2) show ?thesis by (simp add: ms_ptr_def wrote_def kept_def sent_def)
qed

section \<open>Tokens that spell a piece of the file\<close>

definition block_match :: "(bytes \<Rightarrow> bytes) \<Rightarrow> i32 \<Rightarrow> SumHead \<Rightarrow> nat \<Rightarrow> bytes \<Rightarrow> bool" where
  "block_match md4 seed head i p \<longleftrightarrow>
     i < length (Sums head) \<and> int (length p) = Len (Sums head ! i) \<and>
     Checksum1 p = Sum1 (Sums head ! i) \<and>
     take (nat (sint (ChecksumLength head))) (Checksum2 md4 seed p) =
       take (nat (sint (ChecksumLength head))) (Sum2 (Sums head ! i))"

fun piece_ok :: "(bytes \<Rightarrow> bytes) \<Rightarrow> i32 \<Rightarrow> SumHead \<Rightarrow> token \<Rightarrow> bytes \<Rightarrow> bool" where
  "piece_ok md4 seed head (Lit b) p = (p = b \<and> b \<noteq> [] \<and> int (length b) \<le> chunkSize)"
| "piece_ok md4 seed head (Copy i) p = block_match md4 seed head i p"

definition spelled :: "(bytes \<Rightarrow> bytes) \<Rightarrow> i32 \<Rightarrow> SumHead \<Rightarrow> token list \<Rightarrow> bytes \<Rightarrow> bool" where
  "spelled md4 seed head ts xs \<longleftrightarrow> (\<exists>ps. list_all2 (piece_ok md4 seed head) ts ps \<and> concat ps = xs)"

lemma spelled_Nil [simp]: "spelled md4 seed head [] []"
  by (auto simp: spelled_def)

lemma spelled_append:
  "spelled md4 seed head ts xs \<Longrightarrow> spelled md4 seed head us ys \<Longrightarrow> spelled md4 seed head (ts @ us) (xs @ ys)"
  unfolding spelled_def by (metis concat_append list_all2_appendI)

lemma spelled_one: "piece_ok md4 seed head t p \<Longrightarrow> spelled md4 seed head [t] p"
  by (auto simp: spelled_def intro: exI [of _ "[p]"])

section \<open>What the calls send\<close>

lemma chunkSize_pos: "0 < chunkSize" "chunkSize < 2 ^ 31"
  by (simp_all add: chunkSize_def)

lemma to_int32_chunk: "0 \<le> n \<Longrightarrow> to_int32 (min chunkSize n) = min chunkSize n"
  using chunkSize_pos by (intro to_int32_id) auto

lemma wrote_conn_Write:
  "wrote s p t \<Longrightarrow> conn_Write q t = (Inr (), emit q t) \<and> wrote s (p @ q) (emit q t)"
  by (auto simp: wrote_def conn_Write_ok)

lemma send_chunks_wrote:
  assumes "ms_total C (smap s)" and "room s = None" and "0 \<le> offset" and "0 \<le> l" and "l \<le> n"
    and "offset + n \<le> int (length C)"
  shows "\<exists>ts t. send_chunks offset n l s = (Inr (), t) \<and> wrote s (enc_tokens ts) t \<and> kept C s t \<and>
           spelled md4 seed head ts (sub (offset + l) (n - l) C)"
  using assms
proof (induction offset n l arbitrary: s rule: send_chunks.induct)
  case (1 offset n l)
  show ?case
  proof (cases "l < n")
    case False
    with "1.prems" show ?thesis
      by (subst send_chunks.simps) (auto simp: wrote_def kept_def intro!: exI [of _ "[]"])
  next
    case True
    define n1 where "n1 = min chunkSize (n - l)"
    have n1: "0 < n1" "n1 \<le> chunkSize" "l + n1 \<le> n" "to_int32 n1 = n1"
      using True chunkSize_pos to_int32_chunk [of "n - l"] by (auto simp: n1_def)
    let ?b = "sub (offset + l) n1 C"
    obtain t1 where t1: "ms_ptr (offset + l) n1 s = (Inr ?b, t1)" "wrote s [] t1" "kept C s t1"
      using ms_ptr_total [of C s "offset + l" n1] "1.prems" n1 by auto
    have lb: "int (length ?b) = n1" using "1.prems" n1 by (subst length_sub) auto
    let ?h = "le_enc 4 (word_of_int n1 :: i32)" and ?t2 = "emit ?b (emit (le_enc 4 (word_of_int n1 :: i32)) t1)"
    have w2: "wrote s (enc_token (Lit ?b)) ?t2"
      using t1(2) by (simp add: wrote_def lb)
    have k2: "kept C s ?t2" using t1(3) by (simp add: kept_def emit_def)
    have pc: "piece_ok md4 seed head (Lit ?b) ?b" using n1 lb by auto
    have "\<exists>ts t. send_chunks offset n (l + n1) ?t2 = (Inr (), t) \<and> wrote ?t2 (enc_tokens ts) t \<and>
        kept C ?t2 t \<and> spelled md4 seed head ts (sub (offset + (l + n1)) (n - (l + n1)) C)"
      using "1.IH" [OF True n1_def, of ?t2] "1.prems" n1 k2 w2 by (simp add: kept_def wrote_def)
    then obtain ts t where t: "send_chunks offset n (l + n1) ?t2 = (Inr (), t)"
      "wrote ?t2 (enc_tokens ts) t" "kept C ?t2 t"
      "spelled md4 seed head ts (sub (offset + (l + n1)) (n - (l + n1)) C)" by blast
    have "send_chunks offset n l s = (Inr (), t)"
      using True t(1) t1 n1(4)
      by (subst send_chunks.simps)
        (simp add: n1_def [symmetric] Let_def ebind_def WriteInt32_ok conn_Write_ok wrote_def)
    moreover have "wrote s (enc_tokens (Lit ?b # ts)) t" using wrote_trans [OF w2 t(2)] by simp
    moreover have "kept C s t" using k2 t(3) by (simp add: kept_def)
    moreover have "spelled md4 seed head (Lit ?b # ts) (sub (offset + l) (n - l) C)"
      using spelled_append [OF spelled_one [OF pc] t(4)] sub_split [of "offset + l" n1 "n - (l + n1)" C]
        "1.prems" n1 by (simp add: algebra_simps)
    ultimately show ?thesis by blast
  qed
qed

lemma hash_chunks_hashed:
  assumes "ms_total C (smap s)" and "room s = None" and "0 \<le> lastMatch s" and "0 \<le> j"
    and "lastMatch s + n \<le> int (length C)"
  shows "\<exists>t. hash_chunks n j s = (Inr (), t) \<and> wrote s [] t \<and> lastMatch t = lastMatch s \<and>
           ms_total C (smap t) \<and> hsum t = hsum s @ sub (lastMatch s + j) (n - j) C"
  using assms
proof (induction n j arbitrary: s rule: hash_chunks.induct)
  case (1 n j)
  show ?case
  proof (cases "j < n")
    case False
    with "1.prems" show ?thesis
      by (subst hash_chunks.simps) (simp add: wrote_def sub_def)
  next
    case True
    define n1 where "n1 = min chunkSize (n - j)"
    have n1: "0 < n1" "n1 \<le> chunkSize" "j + n1 \<le> n" "to_int32 n1 = n1"
      using True chunkSize_pos to_int32_chunk [of "n - j"] by (auto simp: n1_def)
    let ?b = "sub (lastMatch s + j) n1 C"
    obtain t1 where t1: "ms_ptr (lastMatch s + j) n1 s = (Inr ?b, t1)" "wrote s [] t1" "kept C s t1"
      using ms_ptr_total [of C s "lastMatch s + j" n1] "1.prems" n1 by auto
    let ?t2 = "t1\<lparr>hsum := hsum t1 @ ?b\<rparr>"
    have w2: "wrote s [] ?t2" using t1(2) by (simp add: wrote_def sent_def)
    have "\<exists>t. hash_chunks n (j + chunkSize) ?t2 = (Inr (), t) \<and> wrote ?t2 [] t \<and>
        lastMatch t = lastMatch ?t2 \<and> ms_total C (smap t) \<and>
        hsum t = hsum ?t2 @ sub (lastMatch ?t2 + (j + chunkSize)) (n - (j + chunkSize)) C"
      using "1.prems" t1 chunkSize_pos
      by (intro "1.IH" [OF True n1_def _ refl, of s ?b t1]) (auto simp: n1(4) wrote_def kept_def)
    then obtain t where t: "hash_chunks n (j + chunkSize) ?t2 = (Inr (), t)" "wrote ?t2 [] t"
      "lastMatch t = lastMatch s" "ms_total C (smap t)"
      "hsum t = hsum s @ ?b @ sub (lastMatch s + (j + chunkSize)) (n - (j + chunkSize)) C"
      using t1(3) by (auto simp: kept_def)
    have "?b @ sub (lastMatch s + (j + chunkSize)) (n - (j + chunkSize)) C = sub (lastMatch s + j) (n - j) C"
    proof (cases "chunkSize \<le> n - j")
      case c: True
      then have "n1 = chunkSize" by (simp add: n1_def)
      with sub_split [of "lastMatch s + j" n1 "n - (j + chunkSize)" C] c n1 "1.prems" show ?thesis
        by (simp add: algebra_simps)
    next
      case False
      then show ?thesis by (simp add: n1_def sub_def)
    qed
    moreover have "hash_chunks n j s = (Inr (), t)"
      using True t(1) t1 n1(4)
      by (subst hash_chunks.simps) (simp add: n1_def [symmetric] Let_def ebind_def)
    ultimately show ?thesis using t wrote_trans [OF w2 t(2)] by auto
  qed
qed

lemma simpleSendToken_wrote:
  assumes "ms_total C (smap s)" and "room s = None" and "0 \<le> offset" and "0 \<le> n"
    and "offset + n \<le> int (length C)"
  shows "\<exists>ts t. simpleSendToken i offset n s = (Inr (), t) \<and>
    wrote s (enc_tokens ts @ (if i = -2 then [] else le_enc 4 (word_of_int (- (i + 1)) :: i32))) t \<and>
    kept C s t \<and> spelled md4 seed head ts (sub offset n C)"
proof -
  obtain ts t1 where t1: "(if n > 0 then send_chunks offset n 0 else ret ()) s = (Inr (), t1)"
    "wrote s (enc_tokens ts) t1" "kept C s t1" "spelled md4 seed head ts (sub offset n C)"
  proof (cases "n > 0")
    case True
    with send_chunks_wrote [OF assms(1,2,3) order_refl assms(4,5), of md4 seed head] that
    show ?thesis by auto
  next
    case False
    with assms that [of s "[]"] show ?thesis by (auto simp: wrote_refl kept_def)
  qed
  have r: "room t1 = None" using t1(2) by (rule wrote_room)
  have k: "kept C s (emit q t1)" for q using t1(3) by (simp add: kept_def emit_def)
  let ?q = "le_enc 4 (word_of_int (- (i + 1)) :: i32)"
  have w: "wrote s (enc_tokens ts @ ?q) (emit ?q t1)"
    using wrote_conn_Write [OF t1(2)] by blast
  show ?thesis
  proof (cases "i = -2")
    case True
    with t1 show ?thesis by (auto simp: simpleSendToken_def ebind_def)
  next
    case False
    with t1(1,4) w k r show ?thesis
      by (auto simp: simpleSendToken_def ebind_def WriteInt32_ok)
  qed
qed

lemma ewrap_Inr: "m s = (Inr x, t) \<Longrightarrow> ewrap msg m s = (Inr x, t)"
  by (simp add: ewrap_def)

text \<open>
  \<open>matched\<close> without a block (a flush with -2, or the end with -1): the bytes since the last
  match as literals, the hash extended by the same bytes, \<open>lastMatch\<close> moved.
\<close>

lemma matched_literal:
  assumes "ms_total C (smap s)" and "room s = None" and "0 \<le> lastMatch s"
    and "lastMatch s \<le> offset" and "offset \<le> int (length C)" and "i < 0"
  shows "\<exists>ts t. matched head offset i s = (Inr (), t) \<and>
    wrote s (enc_tokens ts @ (if i = -2 then [] else le_enc 4 (word_of_int (- (i + 1)) :: i32))) t \<and>
    lastMatch t = offset \<and> ms_total C (smap t) \<and>
    hsum t = hsum s @ sub (lastMatch s) (offset - lastMatch s) C \<and>
    spelled md4 seed head ts (sub (lastMatch s) (offset - lastMatch s) C)"
proof -
  let ?n = "offset - lastMatch s"
  obtain ts t1 where t1: "simpleSendToken i (lastMatch s) ?n s = (Inr (), t1)"
    "wrote s (enc_tokens ts @ (if i = -2 then [] else le_enc 4 (word_of_int (- (i + 1)) :: i32))) t1"
    "kept C s t1" "spelled md4 seed head ts (sub (lastMatch s) ?n C)"
    using simpleSendToken_wrote [of C s "lastMatch s" ?n i md4 seed head] assms by auto
  obtain t2 where t2: "hash_chunks ?n 0 t1 = (Inr (), t2)" "wrote t1 [] t2"
    "lastMatch t2 = lastMatch t1" "ms_total C (smap t2)"
    "hsum t2 = hsum t1 @ sub (lastMatch t1) ?n C"
    using hash_chunks_hashed [of C t1 0 ?n] t1 assms wrote_room [OF t1(2)]
    by (auto simp: kept_def)
  have "wrote s (enc_tokens ts @ (if i = -2 then [] else le_enc 4 (word_of_int (- (i + 1)) :: i32)))
          (t2\<lparr>lastMatch := offset\<rparr>)"
    using wrote_trans [OF t1(2) t2(2)] by (simp add: wrote_def sent_def)
  moreover have "matched head offset i s = (Inr (), t2\<lparr>lastMatch := offset\<rparr>)"
    using assms(6) t1(1) t2(1) by (simp add: matched_def Let_def ebind_def sendToken_def ewrap_Inr)
  ultimately show ?thesis using t1(3,4) t2 by (auto simp: kept_def)
qed

text \<open>\<open>matched\<close> with a block of the signature: a reference follows the literals.\<close>

lemma matched_block:
  assumes "ms_total C (smap s)" and "room s = None" and "0 \<le> lastMatch s" and "lastMatch s \<le> offset"
    and "i < length (Sums head)" and "0 \<le> L" and "L = Len (Sums head ! i)" and "offset + L \<le> int (length C)"
    and "block_match md4 seed head i (sub offset L C)"
  shows "\<exists>ts t. matched head offset (int i) s = (Inr (), t) \<and> wrote s (enc_tokens ts) t \<and>
    lastMatch t = offset + L \<and> ms_total C (smap t) \<and>
    hsum t = hsum s @ sub (lastMatch s) (offset + L - lastMatch s) C \<and>
    spelled md4 seed head ts (sub (lastMatch s) (offset + L - lastMatch s) C)"
proof -
  let ?n = "offset - lastMatch s"
  obtain ts t1 where t1: "simpleSendToken (int i) (lastMatch s) ?n s = (Inr (), t1)"
    "wrote s (enc_tokens ts @ le_enc 4 (word_of_int (- (int i + 1)) :: i32)) t1"
    "kept C s t1" "spelled md4 seed head ts (sub (lastMatch s) ?n C)"
    using simpleSendToken_wrote [of C s "lastMatch s" ?n "int i" md4 seed head] assms(1-8) by auto
  obtain t2 where t2: "hash_chunks (?n + L) 0 t1 = (Inr (), t2)" "wrote t1 [] t2"
    "lastMatch t2 = lastMatch t1" "ms_total C (smap t2)"
    "hsum t2 = hsum t1 @ sub (lastMatch t1) (?n + L) C"
    using hash_chunks_hashed [of C t1 0 "?n + L"] t1 assms(1-8) wrote_room [OF t1(2)]
    by (auto simp: kept_def)
  have sp: "sub (lastMatch s) (?n + L) C = sub (lastMatch s) ?n C @ sub offset L C"
    using sub_split [of "lastMatch s" ?n L C] assms(3,4,6) by simp
  have "spelled md4 seed head (ts @ [Copy i]) (sub (lastMatch s) (?n + L) C)"
    unfolding sp by (rule spelled_append [OF t1(4) spelled_one]) (simp add: assms(9))
  moreover have "wrote s (enc_tokens (ts @ [Copy i])) (t2\<lparr>lastMatch := offset + L\<rparr>)"
    using wrote_trans [OF t1(2) t2(2)] by (simp add: wrote_def sent_def)
  moreover have "matched head offset (int i) s = (Inr (), t2\<lparr>lastMatch := offset + L\<rparr>)"
    using assms(5,7) t1(1) t2(1)
    by (simp add: matched_def Let_def ebind_def sendToken_def ewrap_Inr Sums_at_def)
  moreover have "hsum t2 = hsum s @ sub (lastMatch s) (offset + L - lastMatch s) C"
    using t1(3) t2(5) by (simp add: kept_def algebra_simps)
  moreover have "sub (lastMatch s) (?n + L) C = sub (lastMatch s) (offset + L - lastMatch s) C"
    by (simp add: algebra_simps)
  ultimately show ?thesis using t2(4)
    by (intro exI [of _ "ts @ [Copy i]"] exI [of _ "t2\<lparr>lastMatch := offset + L\<rparr>"]) simp
qed

text \<open>Every token of a spelled stream fits the wire.\<close>

lemma spelled_token_ok:
  assumes "spelled md4 seed head ts xs" and "length (Sums head) \<le> n" and "n < 2 ^ 31"
  shows "list_all (token_ok n) ts"
proof -
  obtain ps where "list_all2 (piece_ok md4 seed head) ts ps" using assms(1) by (auto simp: spelled_def)
  then show ?thesis
  proof (induction rule: list_all2_induct)
    case (Cons t ts p ps)
    have "token_ok n t" using Cons.hyps(1) assms(2,3) by (cases t) (auto simp: block_match_def)
    with Cons.IH show ?case by simp
  qed simp
qed

section \<open>What the window and the tokens promise\<close>

text \<open>A run of calls of \<open>ptr\<close> on one window.\<close>

fun ptr_calls :: "(int \<times> int) list \<Rightarrow> mapStruct \<Rightarrow> bytes list" where
  "ptr_calls [] ms = []"
| "ptr_calls ((offset, len) # cs) ms = (case ptr offset len ms of (b, ms') \<Rightarrow> b # ptr_calls cs ms')"

lemma ptr_calls_total:
  "ms_total C m \<Longrightarrow> \<forall>(offset, len) \<in> set cs. 0 \<le> offset \<and> 0 \<le> len \<and> offset + len \<le> int (length C) \<Longrightarrow>
     ptr_calls cs m = map (\<lambda>(offset, len). sub offset len C) cs"
proof (induction cs arbitrary: m)
  case (Cons c cs)
  obtain offset len where c: "c = (offset, len)" by (cases c)
  with ptr_total [OF Cons.prems(1), of offset len] Cons.prems(2) obtain m' where
    "ptr offset len m = (sub offset len C, m')" "ms_total C m'" by auto
  with Cons.IH [of m'] Cons.prems(2) c show ?case by simp
qed simp

text \<open>
  C15: the sliding window: any sequence of requests within the file, forwards or backwards, is answered
  with exactly the requested bytes, provided the file ends on a 1024 byte boundary or fits the window.
\<close>
theorem window_delivers:
  assumes "content f = C" and "\<not> is_dir f" and "fpos f = 0"
    and "0 < defWindowSize (mapFile f (int (length C)) readSize blkSize)"
    and "int (length C) mod 1024 = 0 \<or>
      int (length C) \<le> defWindowSize (mapFile f (int (length C)) readSize blkSize)"
    and "\<forall>(offset, len) \<in> set calls. 0 \<le> offset \<and> 0 \<le> len \<and> offset + len \<le> int (length C)"
  shows "ptr_calls calls (mapFile f (int (length C)) readSize blkSize) =
    map (\<lambda>(offset, len). sub offset len C) calls"
  using ms_ok_mapFile [OF assms(1-4)] assms(5,6) by (intro ptr_calls_total) (simp_all add: ms_total_def)

theorem window_delivers_witness:
  "ptr_calls [(1, 2), (0, 3)]
     (mapFile \<lparr>content = [10, 20, 30], fpos = 0, is_dir = False, rdmax = 0\<rparr> (int (length [10, 20, 30 :: byte])) 262144 700) =
   map (\<lambda>(offset, len). sub offset len [10, 20, 30]) [(1, 2), (0, 3)]"
  by (rule window_delivers) (simp_all add: mapFile_def Let_def alignedLength_div to_int32_id)

text \<open>
  C16: without that proviso the window fails on ranges that lie within the file: of a file of 300000
  bytes, mapped for a block length of 700, the first 299009 bytes cannot be had, because the window is
  rounded up past the end of the file.
\<close>
theorem window_fails_near_the_end:
  assumes "length (content f) = 300000" and "\<not> is_dir f" and "fpos f = 0"
  shows "fst (ptr 0 299009 (mapFile f 300000 262144 700)) = []"
proof -
  have w: "defWindowSize (mapFile f 300000 262144 700) = 263168"
    by (simp add: mapFile_def Let_def alignedLength_div to_int32_id)
  have m: "pOffset (mapFile f 300000 262144 700) = 0" "pLen (mapFile f 300000 262144 700) = 0"
    "fileSize (mapFile f 300000 262144 700) = 300000" by (simp_all add: mapFile_def Let_def)
  have ok: "ms_ok (content f) (mapFile f 300000 262144 700)"
    using ms_ok_mapFile [OF refl assms(2,3), of 262144 700] assms(1) w by simp
  show ?thesis
    by (rule ptr_nil [OF ok])
      (simp_all add: in_window_def window_fits_def window_size_def Let_def m w alignedOvershoot_mod alignedLength_div)
qed

theorem window_fails_near_the_end_witness:
  "fst (ptr 0 299009 (mapFile \<lparr>content = replicate 300000 1, fpos = 0, is_dir = False, rdmax = 4095\<rparr> 300000 262144 700)) = []"
  by (rule window_fails_near_the_end) simp_all

text \<open>
  C14: the token stream: the literal that matched sends before a block (in chunks of at most 256 KiB)
  and the block reference spell exactly the bytes from the last match to the end of the block, and the
  same bytes enter the file's hash.
\<close>
theorem matched_sends_block:
  assumes "ms_total C (smap s)" and "room s = None" and "0 \<le> lastMatch s" and "lastMatch s \<le> offset"
    and "i < length (Sums head)" and "0 \<le> Len (Sums head ! i)" and "offset + Len (Sums head ! i) \<le> int (length C)"
    and "block_match md4 seed head i (sub offset (Len (Sums head ! i)) C)"
  shows "\<exists>ts t. matched head offset (int i) s = (Inr (), t) \<and> wrote s (enc_tokens ts) t \<and>
    lastMatch t = offset + Len (Sums head ! i) \<and>
    hsum t = hsum s @ sub (lastMatch s) (lastMatch t - lastMatch s) C \<and>
    spelled md4 seed head ts (sub (lastMatch s) (lastMatch t - lastMatch s) C)"
  using matched_block [OF assms(1-6) refl assms(7,8)] by auto

theorem matched_sends_block_witness:
  "\<exists>ts t. matched \<lparr>ChecksumCount = 1, BlockLength = 700, ChecksumLength = 16, RemainderLength = 1,
        Sums = [\<lparr>Offset = 0, Len = 1, Index = 0, Sum1 = Checksum1 [20], Sum2 = replicate 16 7\<rparr>]\<rparr> 1 (int 0)
      \<lparr>rx = [], nread = 0, tx = [], room = None, lastMatch = 0, hsum = [],
       smap = mapFile \<lparr>content = [10, 20], fpos = 0, is_dir = False, rdmax = 0\<rparr> (int (length [10, 20 :: byte])) 262144 700\<rparr>
      = (Inr (), t) \<and> lastMatch t = 2 \<and> hsum t = [10, 20]"
proof -
  let ?h = "\<lparr>ChecksumCount = 1, BlockLength = 700, ChecksumLength = 16, RemainderLength = 1,
        Sums = [\<lparr>Offset = 0, Len = 1, Index = 0, Sum1 = Checksum1 [20], Sum2 = replicate 16 7\<rparr>]\<rparr> :: SumHead"
  let ?f = "\<lparr>content = [10, 20], fpos = 0, is_dir = False, rdmax = 0\<rparr> :: osfile"
  let ?m = "mapFile ?f (int (length [10, 20 :: byte])) 262144 700"
  let ?s = "\<lparr>rx = [], nread = 0, tx = [], room = None, lastMatch = 0, hsum = [], smap = ?m\<rparr> :: search"
  have d: "0 < defWindowSize ?m" "2 \<le> defWindowSize ?m"
    by (simp_all add: mapFile_def Let_def alignedLength_div to_int32_id)
  have ok: "ms_total [10, 20] ?m"
    using ms_ok_mapFile [of ?f "[10, 20]" 262144 700] d by (simp add: ms_total_def)
  show ?thesis
    using matched_sends_block [of "[10, 20]" ?s 1 0 ?h "\<lambda>x. replicate 16 7" 0] ok
    by (auto simp: block_match_def sub_def Checksum2_def)
qed

end
