(* ===== verification/SortSlice.thy ===== *)
theory SortSlice
  imports Prelude "HOL-Library.Multiset"
begin

text \<open>
  The contract of \<open>sort.Slice\<close>, which the program uses for the signature table and for both file
  lists: a sorted permutation, and nothing about the order of elements with equal keys.
\<close>

section \<open>The contract of sort.Slice\<close>

locale slice_sort =
  fixes srt :: "'a list \<Rightarrow> 'a list" and key :: "'a \<Rightarrow> 'k :: linorder"
  assumes perm: "mset (srt xs) = mset xs"
    and ordered: "sorted (map key (srt xs))"
begin

lemma set_srt [simp]: "set (srt xs) = set xs"
  using perm mset_eq_setD by blast

lemma length_srt [simp]: "length (srt xs) = length xs"
  using perm mset_eq_length by blast

lemma key_le: "i \<le> j \<Longrightarrow> j < length xs \<Longrightarrow> key (srt xs ! i) \<le> key (srt xs ! j)"
  using sorted_nth_mono [OF ordered, of i j xs] by simp

text \<open>When the keys are distinct the contract determines the result.\<close>

lemma unique:
  assumes "distinct (map key xs)" and "mset ys = mset xs" and "sorted (map key ys)"
  shows "srt xs = ys"
proof -
  have inj: "inj_on key (set xs)" using assms(1) by (simp add: distinct_map)
  have "mset (map key (srt xs)) = mset (map key ys)" using perm [of xs] assms(2) by simp
  then have "map key (srt xs) = map key ys"
    by (metis ordered assms(3) properties_for_sort sorted_sort_id)
  moreover have "set ys = set xs" using assms(2) mset_eq_setD by blast
  ultimately show ?thesis using inj by (intro map_inj_on [of key]) auto
qed

end

interpretation key_sort: slice_sort "sort_key f" f for f
  by unfold_locales simp_all

end
