(* ===== verification/Utils.thy ===== *)
theory Utils
  imports SortSlice "HOL-Library.List_Lexorder"
begin

unbundle bit_operations_syntax

text \<open>
  utils/file.go and rsync/consts.go: the file list entries of the two sides, the conversion of a
  mode to Go's permission bits, the order of the receiver's list and the search in it.  Strings
  are byte lists; their order is Go's order on strings.
\<close>

section \<open>File list entries\<close>

record SenderFile =
  Path :: bytes
  WPath :: bytes
  Regular :: bool

record ReceiverFile =
  Name :: bytes
  Length :: i64
  ModTime :: int
  Mode :: i32
  Uid :: i32
  Gid :: i32
  LinkTarget :: bytes
  Rdev :: i32

definition zero_ReceiverFile :: ReceiverFile where
  "zero_ReceiverFile = \<lparr>Name = [], Length = 0, ModTime = 0, Mode = 0, Uid = 0, Gid = 0,
     LinkTarget = [], Rdev = 0\<rparr>"

text \<open>What the program asks of an \<open>os.FileInfo\<close>.\<close>

record FileInfo =
  fiName :: bytes
  fiSize :: int
  fiMode :: u32
  fiModTime :: int

section \<open>Modes\<close>

definition S_IFMT :: i32 where "S_IFMT = 0xF000"
definition S_IFDIR :: i32 where "S_IFDIR = 0x4000"
definition S_IFCHR :: i32 where "S_IFCHR = 0x2000"
definition S_IFBLK :: i32 where "S_IFBLK = 0x6000"
definition S_IFREG :: i32 where "S_IFREG = 0x8000"
definition S_IFIFO :: i32 where "S_IFIFO = 0x1000"
definition S_IFLNK :: i32 where "S_IFLNK = 0xA000"
definition S_IFSOCK :: i32 where "S_IFSOCK = 0xC000"

lemmas S_IF_defs = S_IFMT_def S_IFDIR_def S_IFCHR_def S_IFBLK_def S_IFREG_def S_IFIFO_def
  S_IFLNK_def S_IFSOCK_def

text \<open>Go's \<open>fs.FileMode\<close>: a type per bit.\<close>

definition ModeDir :: u32 where "ModeDir = push_bit 31 1"
definition ModeSymlink :: u32 where "ModeSymlink = push_bit 27 1"
definition ModeDevice :: u32 where "ModeDevice = push_bit 26 1"
definition ModeNamedPipe :: u32 where "ModeNamedPipe = push_bit 25 1"
definition ModeSocket :: u32 where "ModeSocket = push_bit 24 1"
definition ModeCharDevice :: u32 where "ModeCharDevice = push_bit 21 1"
definition ModeIrregular :: u32 where "ModeIrregular = push_bit 19 1"
definition ModePerm :: u32 where "ModePerm = 0x1FF"
definition ModeType :: u32 where
  "ModeType = ModeDir OR ModeSymlink OR ModeNamedPipe OR ModeSocket OR ModeDevice OR
     ModeCharDevice OR ModeIrregular"

lemmas Mode_defs = ModeDir_def ModeSymlink_def ModeDevice_def ModeNamedPipe_def ModeSocket_def
  ModeCharDevice_def ModeIrregular_def ModePerm_def ModeType_def

definition IsRegular :: "u32 \<Rightarrow> bool" where "IsRegular m \<longleftrightarrow> m AND ModeType = 0"
definition IsDir :: "u32 \<Rightarrow> bool" where "IsDir m \<longleftrightarrow> m AND ModeDir \<noteq> 0"

definition FileMode :: "ReceiverFile \<Rightarrow> u32" where
  "FileMode f =
     (let perm = Mode f AND ModePerm;
          mode = Mode f AND S_IFMT
      in if mode = S_IFCHR then perm OR ModeCharDevice
         else if mode = S_IFBLK then perm OR ModeDevice
         else if mode = S_IFIFO then perm OR ModeNamedPipe
         else if mode = S_IFSOCK then perm OR ModeSocket
         else if mode = S_IFLNK then perm OR ModeSymlink
         else if mode = S_IFDIR then perm OR ModeDir
         else perm)"

lemma perm_no_type: "(x AND ModePerm) AND ModeType = (0 :: u32)"
proof -
  have "ModePerm AND ModeType = (0 :: u32)" by (simp add: Mode_defs)
  then show ?thesis by (simp add: and.assoc)
qed

lemma FileMode_IsRegular:
  "IsRegular (FileMode f) \<longleftrightarrow>
     Mode f AND S_IFMT \<notin> {S_IFCHR, S_IFBLK, S_IFIFO, S_IFSOCK, S_IFLNK, S_IFDIR}"
proof -
  have t: "((x AND ModePerm) OR b) AND ModeType = b AND ModeType" for x b :: u32
    by (simp add: bit.conj_disj_distrib2 perm_no_type)
  show ?thesis
    by (simp add: IsRegular_def FileMode_def Let_def t perm_no_type) (simp add: Mode_defs)
qed

section \<open>The sorted list\<close>

definition SortFileList :: "(ReceiverFile list \<Rightarrow> ReceiverFile list) \<Rightarrow> ReceiverFile list \<Rightarrow> ReceiverFile list" where
  "SortFileList srt fileList = srt fileList"

text \<open>\<open>sort.Search\<close>: the binary search of the standard library.\<close>

function sort_Search :: "(nat \<Rightarrow> bool) \<Rightarrow> nat \<Rightarrow> nat \<Rightarrow> nat" where
  "sort_Search f i j =
     (if i < j then
        (let h = (i + j) div 2
         in if \<not> f h then sort_Search f (h + 1) j else sort_Search f i h)
      else i)"
  by pat_completeness auto
termination by (relation "measure (\<lambda>(f, i, j). j - i)") auto

declare sort_Search.simps [simp del]

definition FindInFileList :: "ReceiverFile list \<Rightarrow> bytes \<Rightarrow> bool" where
  "FindInFileList fileList name =
     (let i = sort_Search (\<lambda>i. name \<le> Name (fileList ! i)) 0 (length fileList)
      in i < length fileList \<and> Name (fileList ! i) = name)"

lemma sort_Search_least:
  assumes mono: "\<And>a b. a \<le> b \<Longrightarrow> b < n \<Longrightarrow> f a \<Longrightarrow> f b"
  shows "i \<le> j \<Longrightarrow> j \<le> n \<Longrightarrow> \<forall>a < i. \<not> f a \<Longrightarrow> \<forall>b. j \<le> b \<and> b < n \<longrightarrow> f b \<Longrightarrow>
    sort_Search f i j \<le> n \<and> (\<forall>a < sort_Search f i j. \<not> f a) \<and>
    (\<forall>b. sort_Search f i j \<le> b \<and> b < n \<longrightarrow> f b)"
proof (induction "j - i" arbitrary: i j rule: less_induct)
  case less
  show ?case
  proof (cases "i < j")
    case False
    then have "sort_Search f i j = i" "i = j" using less.prems(1) by (auto simp: sort_Search.simps)
    with less.prems show ?thesis by simp
  next
    case True
    let ?h = "(i + j) div 2"
    have h: "i \<le> ?h" "?h < j" using True by auto
    have eq: "sort_Search f i j = (if f ?h then sort_Search f i ?h else sort_Search f (?h + 1) j)"
      using True by (subst sort_Search.simps) (simp add: Let_def)
    show ?thesis
    proof (cases "f ?h")
      case up: True
      have "\<forall>b. ?h \<le> b \<and> b < n \<longrightarrow> f b" using mono up by blast
      with less.hyps [of ?h i] h less.prems up show ?thesis by (simp add: eq)
    next
      case False
      have hn: "?h < n" using h less.prems(2) by linarith
      have "\<forall>a < ?h + 1. \<not> f a"
      proof (intro allI impI notI)
        fix a assume "a < ?h + 1" and a: "f a"
        then have "a \<le> ?h" by linarith
        with mono [OF this hn a] False show False by simp
      qed
      with less.hyps [of j "?h + 1"] h less.prems False show ?thesis by (simp add: eq)
    qed
  qed
qed

lemma FindInFileList_sorted:
  assumes "sorted (map Name fileList)"
  shows "FindInFileList fileList name \<longleftrightarrow> name \<in> Name ` set fileList"
proof -
  let ?f = "\<lambda>i. name \<le> Name (fileList ! i)" and ?n = "length fileList"
  have mono: "?f b" if "a \<le> b" "b < ?n" "?f a" for a b
    using that sorted_nth_mono [OF assms, of a b] by (auto intro: order_trans)
  define k where "k = sort_Search ?f 0 ?n"
  have "k \<le> ?n \<and> (\<forall>a < k. \<not> ?f a) \<and> (\<forall>b. k \<le> b \<and> b < ?n \<longrightarrow> ?f b)"
    unfolding k_def by (rule sort_Search_least) (rule mono, assumption+, auto)
  then have k: "k \<le> ?n" "\<forall>a < k. \<not> ?f a" "\<forall>b. k \<le> b \<and> b < ?n \<longrightarrow> ?f b" by blast+
  have "k < ?n \<and> Name (fileList ! k) = name" if "i < ?n" "Name (fileList ! i) = name" for i
  proof -
    have ki: "k \<le> i" using k(2) that by (meson leI order_refl)
    then have "Name (fileList ! k) \<le> name" using sorted_nth_mono [OF assms, of k i] that by simp
    moreover have "name \<le> Name (fileList ! k)" using k(3) ki that(1) by auto
    ultimately show ?thesis using ki that(1) by simp
  qed
  then show ?thesis
    unfolding FindInFileList_def Let_def k_def [symmetric] by (metis imageE image_eqI in_set_conv_nth)
qed

section \<open>Search in the sorted list\<close>

text \<open>
  C33: after SortFileList, by whatever sort.Slice does, the binary search of FindInFileList finds a name
  exactly if some entry of the list carries it.
\<close>
theorem sorted_list_search:
  assumes "slice_sort srt Name"
  shows "FindInFileList (SortFileList srt fileList) name \<longleftrightarrow> name \<in> Name ` set fileList"
  using FindInFileList_sorted [OF slice_sort.ordered [OF assms]] slice_sort.set_srt [OF assms]
  by (simp add: SortFileList_def)

theorem sorted_list_search_witness:
  "FindInFileList (SortFileList (sort_key Name) [zero_ReceiverFile\<lparr>Name := [98]\<rparr>, zero_ReceiverFile\<lparr>Name := [97]\<rparr>]) [97]"
  using sorted_list_search [OF key_sort.slice_sort_axioms,
      of "[zero_ReceiverFile\<lparr>Name := [98]\<rparr>, zero_ReceiverFile\<lparr>Name := [97]\<rparr>]" "[97]"] by simp

end
