(* ===== verification/RecvData.thy ===== *)
theory RecvData
  imports TokensSpec Utils
begin

text \<open>
  rsyncreceiver/receiver.go: \<open>receiveData\<close> rebuilds a file from the token stream and pipes it into
  the caller's \<open>Put\<close>, \<open>RecvFiles\<close> does so for every file the peer announces.  \<open>Put\<close> runs beside
  the loop and reads from an \<open>io.Pipe\<close>: it takes everything, or it stops after some number of bytes
  (\<open>put_limit\<close>), after which the loop's writes fail with \<open>io.ErrClosedPipe\<close> and are skipped.
\<close>

section \<open>The receiver's state and surroundings\<close>

record TransferOpts =
  Verbose :: bool
  DryRun :: bool
  DeleteMode :: bool
  PreserveGid :: bool
  PreserveUid :: bool
  PreserveLinks :: bool
  PreservePerms :: bool
  PreserveDevices :: bool
  PreserveSpecials :: bool
  PreserveTimes :: bool
  PreserveHardlinks :: bool
  IgnoreTimes :: bool
  SizeOnly :: bool
  AlwaysChecksum :: bool

definition zero_TransferOpts :: TransferOpts where
  "zero_TransferOpts = \<lparr>Verbose = False, DryRun = False, DeleteMode = False, PreserveGid = False,
     PreserveUid = False, PreserveLinks = False, PreservePerms = False, PreserveDevices = False,
     PreserveSpecials = False, PreserveTimes = False, PreserveHardlinks = False,
     IgnoreTimes = False, SizeOnly = False, AlwaysChecksum = False\<rparr>"

text \<open>
  What the receiver's \<open>Transfer\<close> holds besides the connection: the caller's file system (a file
  opened by \<open>Read\<close> is its content), the limit of \<open>Put\<close>, the seed, the options, \<open>Dest\<close>, and what
  \<open>Remove\<close> returns.
\<close>

record recv_env =
  r_md4 :: "bytes \<Rightarrow> bytes"
  r_seed :: i32
  r_read :: "SenderFile \<Rightarrow> err + FileInfo \<times> bytes"
  r_limit :: "ReceiverFile \<Rightarrow> nat option"
  r_opts :: TransferOpts
  r_dest :: bytes
  r_remove :: "ReceiverFile list \<Rightarrow> err option"

text \<open>
  \<open>piped\<close> is what the running \<open>receiveData\<close> has written to its pipe; \<open>stored\<close> records every call of
  \<open>Put\<close>: the file, the bytes it was handed, and whether it saw the end of the file; \<open>removed\<close> every
  call of \<open>Remove\<close>.
\<close>

record recvr = conn +
  piped :: bytes
  stored :: "(ReceiverFile \<times> bytes \<times> bool) list"
  IOErrors :: i32
  removed :: "ReceiverFile list list"

definition listOnly :: "recv_env \<Rightarrow> bool" where
  "listOnly E \<longleftrightarrow> r_dest E = []"

section \<open>receiveData\<close>

text \<open>\<open>localFile.ReadAt(data, off)\<close>: all of \<open>data\<close>, or the end of the file.\<close>

definition file_ReadAt :: "bytes \<Rightarrow> int \<Rightarrow> int \<Rightarrow> err + bytes" where
  "file_ReadAt basis len off =
     (if len = 0 then Inr []
      else if off + len \<le> int (length basis) then Inr (sub off len basis) else Inl EOF)"

definition pipe_Write :: "bytes \<Rightarrow> (recvr, unit) io" where
  "pipe_Write data s = (Inr (), s\<lparr>piped := piped s @ data\<rparr>)"

lemma recvToken_consumes:
  assumes "recvToken c = (Inr x, d)" shows "length (rx d) < length (rx c)"
proof -
  have make: "make_ReadFull n c' = (Inr b, d') \<Longrightarrow> length (rx d') \<le> length (rx c')" for n c' b d'
    using reads_onlyD [OF reads_only_make] by fastforce
  have int: "ReadInt32 c' = (Inr b, d') \<Longrightarrow> length (rx d') < length (rx c')" for c' b d'
    by (auto simp: ReadInt32_def ReadFull_def ebind_eq_Inr split: if_splits)
  show ?thesis
    using assms unfolding recvToken_def ebind_eq_Inr
    by (auto split: if_splits dest!: int make simp: ebind_eq_Inr)
qed

text \<open>\<open>h\<close> is what has gone into the hash, which the loop returns.\<close>

function recv_loop :: "SumHead \<Rightarrow> bytes option \<Rightarrow> bytes \<Rightarrow> (recvr, bytes) io" where
  "recv_loop sh localFile h s =
     ebind recvToken (\<lambda>td s.
       if fst td = 0 then (Inr h, s)
       else if sint (fst td) > 0 then
         ebind (pipe_Write (snd td)) (\<lambda>_. recv_loop sh localFile (h @ snd td)) s
       else
         (case localFile of
            None \<Rightarrow> (Inl (Errorf ''BUG: local file not open for copying chunk''), s)
          | Some basis \<Rightarrow>
              (let token = - (sint (fst td) + 1);
                   offset2 = token * sint (BlockLength sh);
                   dataLen = (if token = sint (ChecksumCount sh) - 1 \<and> RemainderLength sh \<noteq> 0
                              then sint (RemainderLength sh) else sint (BlockLength sh))
               in if dataLen < 0 then (Inl (Panic ''makeslice: len out of range''), s)
                  else (case file_ReadAt basis dataLen offset2 of
                          Inl e \<Rightarrow> (Inl e, s)
                        | Inr data \<Rightarrow>
                            ebind (pipe_Write data) (\<lambda>_. recv_loop sh localFile (h @ data)) s)))) s"
  by pat_completeness auto
termination
  by (relation "measure (\<lambda>(sh, localFile, h, s). length (rx s))")
    (auto simp: pipe_Write_def dest!: recvToken_consumes)

declare recv_loop.simps [simp del]

text \<open>What \<open>Put\<close> makes of a call; \<open>ended\<close>: the pipe was closed behind the last byte.\<close>

definition put_done :: "recv_env \<Rightarrow> ReceiverFile \<Rightarrow> bool \<Rightarrow> recvr \<Rightarrow> recvr" where
  "put_done E f ended s =
     s\<lparr>stored := stored s @ [case r_limit E f of
         None \<Rightarrow> (f, piped s, ended) | Some n \<Rightarrow> (f, take n (piped s), False)]\<rparr>"

definition receiveData :: "recv_env \<Rightarrow> ReceiverFile \<Rightarrow> bytes option \<Rightarrow> (recvr, unit) io" where
  "receiveData E f localFile =
     ebind ReadFrom (\<lambda>sh s.
       case recv_loop sh localFile (le_enc 4 (r_seed E)) (s\<lparr>piped := []\<rparr>) of
         (Inl e, s') \<Rightarrow> (Inl e, put_done E f False s')
       | (Inr h, s') \<Rightarrow>
           (let localSum = r_md4 E h
            in ebind (ReadFull (length localSum)) (\<lambda>remoteSum.
                 if localSum \<noteq> remoteSum then fail (Errorf ''file corruption'') else ret ())
               (put_done E f True s')))"

definition openLocalFile :: "recv_env \<Rightarrow> ReceiverFile \<Rightarrow> err + bytes" where
  "openLocalFile E f =
     (case r_read E \<lparr>Path = [], WPath = Name f, Regular = True\<rparr> of
        Inl e \<Rightarrow> Inl e | Inr (fi, b) \<Rightarrow> Inr b)"

definition recvFile1 :: "recv_env \<Rightarrow> ReceiverFile \<Rightarrow> (recvr, unit) io" where
  "recvFile1 E f =
     (if DryRun (r_opts E) then ret ()
      else receiveData E f (case openLocalFile E f of Inl e \<Rightarrow> None | Inr b \<Rightarrow> Some b))"

section \<open>RecvFiles\<close>

definition fileList_at :: "ReceiverFile list \<Rightarrow> i32 \<Rightarrow> ('s, ReceiverFile) io" where
  "fileList_at fileList idx =
     (if 0 \<le> sint idx \<and> sint idx < int (length fileList) then ret (fileList ! nat (sint idx))
      else fail (Panic ''index out of range''))"

lemma ReadInt32_consumes: "ReadInt32 c = (Inr x, d) \<Longrightarrow> length (rx d) < length (rx c)"
  by (auto simp: ReadInt32_def ReadFull_def ebind_eq_Inr split: if_splits)

lemma reads_only_recvToken [intro, simp]: "reads_only recvToken"
  unfolding recvToken_def by (intro reads_only_ebind reads_only_if) auto

lemma reads_only_ReadFrom [intro, simp]: "reads_only ReadFrom"
  unfolding ReadFrom_def
  by (intro reads_only_ebind reads_only_if reads_only_ReadInt32 reads_only_ret reads_only_fail)

text \<open>A call that never puts bytes back: what \<open>RecvFiles\<close> needs to terminate.\<close>

definition shrinks :: "('z reader_scheme, 'a) io \<Rightarrow> bool" where
  "shrinks m \<longleftrightarrow> (\<forall>s r t. m s = (r, t) \<longrightarrow> length (rx t) \<le> length (rx s))"

lemma shrinksD: "shrinks m \<Longrightarrow> m s = (r, t) \<Longrightarrow> length (rx t) \<le> length (rx s)"
  by (auto simp: shrinks_def)

lemma shrinks_reads: "reads_only m \<Longrightarrow> shrinks m"
  unfolding shrinks_def by (metis diff_le_self length_drop reads_onlyD rx_advance)

lemma shrinks_recv_loop: "shrinks (recv_loop sh localFile h)"
proof -
  have "recv_loop sh localFile h s = (r, t) \<Longrightarrow> length (rx t) \<le> length (rx s)" for s r t
  proof (induction "length (rx s)" arbitrary: h s rule: less_induct)
    case less
    obtain x s1 where x: "recvToken s = (x, s1)" by (cases "recvToken s")
    have le: "length (rx s1) \<le> length (rx s)" by (rule shrinksD [where m = recvToken, OF shrinks_reads [OF reads_only_recvToken] x])
    have lt: "length (rx s1) < length (rx s)" if "x = Inr td" for td
      using recvToken_consumes x that by blast
    have again: "length (rx t) \<le> length (rx s)"
      if "recv_loop sh localFile h' (s1\<lparr>piped := p\<rparr>) = (r, t)" "x = Inr td" for h' p td
      using less.hyps [OF _ that(1)] lt [OF that(2)] by simp
    show ?case
      using less.prems x le again
      by (subst (asm) recv_loop.simps)
        (auto simp: ebind_def pipe_Write_def Let_def split: sum.splits if_splits option.splits)
  qed
  then show ?thesis by (auto simp: shrinks_def)
qed

lemma shrinks_recvFile1: "shrinks (recvFile1 E f)"
proof -
  have put: "length (rx (put_done E f b s)) = length (rx s)" for b s by (simp add: put_done_def)
  have rf: "ReadFrom s = (r, t) \<Longrightarrow> length (rx t) \<le> length (rx s)" for s :: recvr and r t
    by (rule shrinksD [where m = ReadFrom, OF shrinks_reads [OF reads_only_ReadFrom]])
  have full: "ReadFull n s = (r, t) \<Longrightarrow> length (rx t) \<le> length (rx s)" for n and s :: recvr and r t
    by (rule shrinksD [where m = "ReadFull n", OF shrinks_reads [OF reads_only_ReadFull]])
  have loop: "recv_loop sh l h s = (r, t) \<Longrightarrow> length (rx t) \<le> length (rx s)" for sh l h s r t
    by (rule shrinksD [where m = "recv_loop sh l h", OF shrinks_recv_loop])
  have "receiveData E f l s = (r, t) \<Longrightarrow> length (rx t) \<le> length (rx s)" for l s r t
    unfolding receiveData_def ebind_def Let_def
    by (auto split: prod.splits sum.splits if_splits dest!: rf full loop simp: put)
  then show ?thesis unfolding shrinks_def recvFile1_def by simp
qed

function RecvFiles :: "recv_env \<Rightarrow> ReceiverFile list \<Rightarrow> nat \<Rightarrow> (recvr, unit) io" where
  "RecvFiles E fileList phase s =
     ebind ReadInt32 (\<lambda>idx s.
       if idx = -1 then (if phase = 0 then RecvFiles E fileList (phase + 1) s else (Inr (), s))
       else ebind (fileList_at fileList idx) (\<lambda>f.
            ebind (recvFile1 E f) (\<lambda>_. RecvFiles E fileList phase)) s) s"
  by pat_completeness auto
termination
  by (relation "measure (\<lambda>(E, fileList, phase, s). length (rx s))")
    (auto simp: fileList_at_def split: if_splits
      dest!: ReadInt32_consumes shrinksD [where m = "recvFile1 _ _", OF shrinks_recvFile1] intro: le_less_trans)

declare RecvFiles.simps [simp del]

end
