(* ===== verification/Exclude.thy ===== *)
theory Exclude
  imports Wire "HOL-Library.Sublist"
begin

unbundle bit_operations_syntax

text \<open>
  rsyncsender/exclude.go: the filter rules a peer sends before the file list, and how the sender
  applies them to a name.
\<close>

section \<open>Rules\<close>

definition filtruleInclude :: int where "filtruleInclude = 1"
definition filtruleClearList :: int where "filtruleClearList = 2"
definition filtruleDirectory :: int where "filtruleDirectory = 4"
definition filtruleWild :: int where "filtruleWild = 8"

lemmas filtrule_defs = filtruleInclude_def filtruleClearList_def filtruleDirectory_def filtruleWild_def

record filterRule =
  flag :: int
  pattern :: bytes

type_synonym filterRuleList = "filterRule list"

definition slash :: byte where "slash = 47"
definition dot :: byte where "dot = 46"

definition is_wild :: "byte \<Rightarrow> bool" where
  "is_wild b \<longleftrightarrow> b = 42 \<or> b = 91 \<or> b = 63"

definition addRule :: "filterRule \<Rightarrow> filterRuleList \<Rightarrow> filterRuleList" where
  "addRule fr l =
     (let fr1 = (if suffix [slash] (pattern fr)
                 then fr\<lparr>flag := flag fr OR filtruleDirectory, pattern := butlast (pattern fr)\<rparr> else fr);
          fr2 = (if list_ex is_wild (pattern fr1)
                 then fr1\<lparr>flag := flag fr1 OR filtruleWild\<rparr> else fr1)
      in l @ [fr2])"

text \<open>\<open>filepath.Base\<close>: the last element of a path.\<close>

definition Base :: "bytes \<Rightarrow> bytes" where
  "Base path =
     (if path = [] then [dot]
      else
        (let p = rev (dropWhile (\<lambda>b. b = slash) (rev path));
             q = rev (takeWhile (\<lambda>b. b \<noteq> slash) (rev p))
         in if q = [] then [slash] else q))"

definition rule_matches :: "filterRule \<Rightarrow> bytes \<Rightarrow> err + bool" where
  "rule_matches fr name =
     (if flag fr AND filtruleWild \<noteq> 0 then Inl (Panic ''wildcard filter rules not yet implemented'')
      else
        (let name' = (if slash \<notin> set (pattern fr) \<and> flag fr AND filtruleWild = 0 then Base name else name)
         in Inr (pattern fr = name')))"

fun matches :: "filterRuleList \<Rightarrow> bytes \<Rightarrow> err + bool" where
  "matches [] name = Inr False"
| "matches (fr # frs) name =
     (case rule_matches fr name of
        Inl e \<Rightarrow> Inl e
      | Inr b \<Rightarrow> if b then Inr True else matches frs name)"

section \<open>Parsing\<close>

definition parseFilter :: "bytes \<Rightarrow> filterRule" where
  "parseFilter line =
     (let rule = \<lparr>flag = 0, pattern = []\<rparr>
      in if prefix (bytes_of ''- '') line then
           rule\<lparr>flag := flag rule AND NOT filtruleInclude, pattern := drop 2 line\<rparr>
         else if prefix (bytes_of ''+ '') line then
           rule\<lparr>flag := flag rule OR filtruleInclude, pattern := drop 2 line\<rparr>
         else if prefix (bytes_of ''!'') line then
           rule\<lparr>flag := flag rule OR filtruleClearList, pattern := line\<rparr>
         else rule\<lparr>pattern := line\<rparr>)"

lemma make_ReadFull_length: "make_ReadFull n c = (Inr b, d) \<Longrightarrow> length (rx d) \<le> length (rx c)"
  using reads_onlyD [OF reads_only_make] by fastforce

lemma ReadInt32_shrinks: "ReadInt32 c = (Inr x, d) \<Longrightarrow> length (rx d) < length (rx c)"
  by (auto simp: ReadInt32_def ReadFull_def ebind_eq_Inr split: if_splits)

function RecvFilterList :: "filterRuleList \<Rightarrow> ('z reader_scheme, filterRuleList) io" where
  "RecvFilterList l s =
     ebind ReadInt32 (\<lambda>len s.
       if len = 0 then (Inr l, s)
       else ebind (make_ReadFull (sint len)) (\<lambda>line. RecvFilterList (addRule (parseFilter line) l)) s) s"
  by pat_completeness auto
termination
  by (relation "measure (\<lambda>(l, s). length (rx s))")
    (auto dest!: ReadInt32_shrinks make_ReadFull_length)

declare RecvFilterList.simps [simp del]

section \<open>What the rules do\<close>

text \<open>The rule that a line ends up as, once added.\<close>

definition rule_of :: "bytes \<Rightarrow> filterRule" where
  "rule_of line = last (addRule (parseFilter line) [])"

lemma addRule_parse: "addRule (parseFilter line) l = l @ [rule_of line]"
  by (simp add: rule_of_def addRule_def Let_def)

definition enc_line :: "bytes \<Rightarrow> bytes" where
  "enc_line line = le_enc 4 (word_of_nat (length line) :: i32) @ line"

lemma RecvFilterList_lines:
  "\<forall>line \<in> set lines. line \<noteq> [] \<and> length line < 2 ^ 31 \<Longrightarrow>
   rx s = concat (map enc_line lines) @ le_enc 4 (0 :: i32) @ q \<Longrightarrow>
   \<exists>k. RecvFilterList l s = (Inr (l @ map rule_of lines), advance k s) \<and> drop k (rx s) = q"
proof (induction lines arbitrary: l s)
  case Nil
  then have rx: "rx s = le_enc 4 (0 :: i32) @ q" by simp
  show ?case
    using ReadInt32_enc [OF rx] rx
    by (subst RecvFilterList.simps) (auto simp: ebind_def intro!: exI [of _ 4])
next
  case (Cons line lines)
  let ?q = "concat (map enc_line lines) @ le_enc 4 (0 :: i32) @ q"
  let ?w = "word_of_nat (length line) :: i32"
  have rx: "rx s = le_enc 4 ?w @ line @ ?q" using Cons.prems(2) by (simp add: enc_line_def [of line])
  have len: "length line < 2 ^ 31" "line \<noteq> []" using Cons.prems(1) by auto
  have w: "sint ?w = int (length line)" by (rule sint_word_of_nat32 [OF len(1)])
  then have nz: "?w \<noteq> 0" using len(2) by (metis length_0_conv of_nat_eq_0_iff signed_0)
  let ?s = "advance (length line) (advance 4 s)"
  have "make_ReadFull (int (length line)) (advance 4 s) = (Inr line, ?s)"
    using rx by (simp add: make_ReadFull_def ReadFull_append)
  then have eq: "RecvFilterList l s = RecvFilterList (l @ [rule_of line]) ?s"
    using ReadInt32_enc [OF rx] nz w by (subst RecvFilterList.simps) (simp add: ebind_def addRule_parse)
  have rxs: "rx ?s = ?q" using rx by simp
  have "\<forall>line \<in> set lines. line \<noteq> [] \<and> length line < 2 ^ 31" using Cons.prems(1) by simp
  from Cons.IH [OF this rxs, of "l @ [rule_of line]"] obtain k where
    "RecvFilterList (l @ [rule_of line]) ?s = (Inr ((l @ [rule_of line]) @ map rule_of lines), advance k ?s)"
    "drop k (rx ?s) = q" by blast
  with eq show ?case
    by (intro exI [of _ "4 + length line + k"]) (simp add: add.commute add.left_commute)
qed

text \<open>Rules without wild cards: a name is left out exactly if some rule names it.\<close>

lemma matches_iff:
  "\<forall>fr \<in> set l. flag fr AND filtruleWild = 0 \<Longrightarrow>
     matches l name = Inr (\<exists>fr \<in> set l. pattern fr = (if slash \<in> set (pattern fr) then name else Base name))"
  by (induction l) (auto simp: rule_matches_def)

lemma matches_wild:
  "flag fr AND filtruleWild \<noteq> 0 \<Longrightarrow> matches (fr # l) name = Inl (Panic ''wildcard filter rules not yet implemented'')"
  by (simp add: rule_matches_def)

section \<open>What the filter promises, and what it does not\<close>



text \<open>
  C30: an include rule has the effect of an exclude rule: replacing the plus by a minus in any rule of a
  peer changes the outcome for no name.
\<close>
theorem include_rule_excludes:
  "matches (map rule_of (ls @ (bytes_of ''+ '' @ p) # ls')) name =
   matches (map rule_of (ls @ (bytes_of ''- '' @ p) # ls')) name"
proof -
  have eq: "matches (l @ fr # l') name = matches (l @ fr' # l') name"
    if "rule_matches fr name = rule_matches fr' name" for l l' fr fr'
    using that by (induction l) (auto split: sum.split)
  have plus: "parseFilter (bytes_of ''+ '' @ p) = \<lparr>flag = 1, pattern = p\<rparr>"
    and minus: "parseFilter (bytes_of ''- '' @ p) = \<lparr>flag = 0, pattern = p\<rparr>"
    by (simp_all add: parseFilter_def bytes_of_def filtrule_defs)
  let ?fp = "rule_of (bytes_of ''+ '' @ p)" and ?fm = "rule_of (bytes_of ''- '' @ p)"
  have pat: "pattern ?fp = pattern ?fm"
    unfolding rule_of_def plus minus addRule_def Let_def by simp
  have "(flag ?fp AND filtruleWild = 0) = (flag ?fm AND filtruleWild = 0)"
    unfolding rule_of_def plus minus addRule_def Let_def filtrule_defs
    by (cases "suffix [slash] p"; cases "list_ex is_wild p"; cases "list_ex is_wild (butlast p)") simp_all
  then have "rule_matches ?fp name = rule_matches ?fm name"
    unfolding rule_matches_def pat by (simp only:)
  then show ?thesis unfolding map_append list.map by (rule eq)
qed

end
