(* ===== verification/RecvList.thy ===== *)
theory RecvList
  imports RecvData Exclude
begin

unbundle bit_operations_syntax

text \<open>
  rsyncreceiver/flist.go and uidlist.go: reading the file list, an entry of which may inherit its
  name, time, mode and ids from the entry before, and the lists of user and group names.
\<close>

section \<open>Paths\<close>

text \<open>\<open>filepath.Clean\<close>, by path elements; the stack holds the elements kept so far, last first.\<close>

fun split_slash :: "bytes \<Rightarrow> bytes list" where
  "split_slash [] = [[]]"
| "split_slash (c # cs) =
     (if c = slash then [] # split_slash cs
      else (case split_slash cs of [] \<Rightarrow> [[c]] | w # ws \<Rightarrow> (c # w) # ws))"

fun join_slash :: "bytes list \<Rightarrow> bytes" where
  "join_slash [] = []"
| "join_slash [e] = e"
| "join_slash (e # f # es) = e @ [slash] @ join_slash (f # es)"

definition clean_step :: "bool \<Rightarrow> bytes \<Rightarrow> bytes list \<Rightarrow> bytes list" where
  "clean_step rooted e st =
     (if e = [] \<or> e = [dot] then st
      else if e = [dot, dot] then
        (case st of
           [] \<Rightarrow> if rooted then [] else [e]
         | x # xs \<Rightarrow> if x = [dot, dot] then e # st else xs)
      else e # st)"

definition Clean :: "bytes \<Rightarrow> bytes" where
  "Clean path =
     (if path = [] then [dot]
      else
        (let rooted = (hd path = slash);
             body = join_slash (rev (fold (clean_step rooted) (split_slash path) []))
         in if rooted then slash # body else if body = [] then [dot] else body))"

section \<open>Flags\<close>

definition XMIT_TOP_DIR :: u16 where "XMIT_TOP_DIR = 0x01"
definition XMIT_SAME_MODE :: u16 where "XMIT_SAME_MODE = 0x02"
definition XMIT_EXTENDED_FLAGS :: u16 where "XMIT_EXTENDED_FLAGS = 0x04"
definition XMIT_SAME_RDEV_pre28 :: u16 where "XMIT_SAME_RDEV_pre28 = XMIT_EXTENDED_FLAGS"
definition XMIT_SAME_UID :: u16 where "XMIT_SAME_UID = 0x08"
definition XMIT_SAME_GID :: u16 where "XMIT_SAME_GID = 0x10"
definition XMIT_SAME_NAME :: u16 where "XMIT_SAME_NAME = 0x20"
definition XMIT_LONG_NAME :: u16 where "XMIT_LONG_NAME = 0x40"
definition XMIT_SAME_TIME :: u16 where "XMIT_SAME_TIME = 0x80"

lemmas XMIT_defs = XMIT_TOP_DIR_def XMIT_SAME_MODE_def XMIT_EXTENDED_FLAGS_def XMIT_SAME_RDEV_pre28_def
  XMIT_SAME_UID_def XMIT_SAME_GID_def XMIT_SAME_NAME_def XMIT_LONG_NAME_def XMIT_SAME_TIME_def

text \<open>A \<open>time.Time\<close> is the number of nanoseconds since 1970; the zero value is the year 1.\<close>

definition unix_time :: "i32 \<Rightarrow> int" where "unix_time t = sint t * 10 ^ 9"
definition zero_time :: int where "zero_time = - 62135596800 * 10 ^ 9"

section \<open>An entry\<close>

definition PATH_MAX :: int where "PATH_MAX = 4096"

text \<open>
  The name: the first \<open>l1\<close> bytes come from the last name (zeros behind its end), the rest from the
  wire.  \<open>make([]byte, l1+l2)\<close> and \<open>b[l1:]\<close> panic for a negative \<open>l2\<close>.
\<close>

definition receive_name :: "u16 \<Rightarrow> ReceiverFile \<Rightarrow> ('z reader_scheme, bytes) io" where
  "receive_name flags lst =
     ebind (if flags AND XMIT_SAME_NAME \<noteq> 0 then ebind ReadByte (\<lambda>l. ret (uint l)) else ret 0) (\<lambda>l1.
     ebind (if flags AND XMIT_LONG_NAME \<noteq> 0 then ebind ReadInt32 (\<lambda>l. ret (sint l))
            else ebind ReadByte (\<lambda>l. ret (uint l))) (\<lambda>l2.
     if l2 \<ge> PATH_MAX - l1 then fail (Errorf ''overflow'')
     else if l1 + l2 < 0 then fail (Panic ''makeslice: len out of range'')
     else if l2 < 0 then fail (Panic ''slice bounds out of range'')
     else ebind (ReadFull (nat l2)) (\<lambda>rest.
            ret (Clean (take (nat l1) (Name lst @ replicate (nat l1) 0) @ rest)))))"

definition receiveFileEntry :: "TransferOpts \<Rightarrow> u16 \<Rightarrow> ReceiverFile \<Rightarrow> ('z reader_scheme, ReceiverFile) io" where
  "receiveFileEntry opts flags lst =
     ebind (receive_name flags lst) (\<lambda>name.
     ebind ReadInt64 (\<lambda>len.
     ebind (if flags AND XMIT_SAME_TIME \<noteq> 0 then ret (ModTime lst)
            else ebind ReadInt32 (\<lambda>t. ret (unix_time t))) (\<lambda>modTime.
     ebind (if flags AND XMIT_SAME_MODE \<noteq> 0 then ret (Mode lst) else ReadInt32) (\<lambda>fmode.
     ebind (if PreserveUid opts then
              (if flags AND XMIT_SAME_UID \<noteq> 0 then ret (Uid lst) else ReadInt32) else ret 0) (\<lambda>uid.
     ebind (if PreserveGid opts then
              (if flags AND XMIT_SAME_GID \<noteq> 0 then ret (Gid lst) else ReadInt32) else ret 0) (\<lambda>gid.
     let mode = fmode AND S_IFMT;
         isDev = (mode = S_IFCHR \<or> mode = S_IFBLK);
         isSpecial = (mode = S_IFIFO \<or> mode = S_IFSOCK);
         isLink = (mode = S_IFLNK)
     in ebind (if PreserveDevices opts \<and> (isDev \<or> isSpecial) then
                 (if flags AND XMIT_SAME_RDEV_pre28 \<noteq> 0 then ret (Rdev lst) else ReadInt32) else ret 0) (\<lambda>rdev.
        ebind (if PreserveLinks opts \<and> isLink then
                 ebind ReadInt32 (\<lambda>l. make_ReadFull (sint l)) else ret []) (\<lambda>target.
        ret \<lparr>Name = name, Length = len, ModTime = modTime, Mode = fmode, Uid = uid, Gid = gid,
             LinkTarget = target, Rdev = rdev\<rparr>))))))))"

section \<open>The id lists\<close>

record mapping =
  map_Name :: bytes
  LocalId :: i32

lemma ReadByte_shrinks: "ReadByte c = (Inr x, d) \<Longrightarrow> length (rx d) < length (rx c)"
  by (auto simp: ReadByte_def ReadFull_def ebind_eq_Inr split: if_splits)

lemma ReadFull_shrinks: "ReadFull n c = (Inr x, d) \<Longrightarrow> length (rx d) \<le> length (rx c)"
  by (auto simp: ReadFull_def split: if_splits)

function recvIdMapping1 ::
  "(i32 \<Rightarrow> bytes \<Rightarrow> i32) \<Rightarrow> (i32 \<rightharpoonup> mapping) \<Rightarrow> ('z reader_scheme, i32 \<rightharpoonup> mapping) io" where
  "recvIdMapping1 localId idMapping s =
     ebind ReadInt32 (\<lambda>id s.
       if id = 0 then (Inr idMapping, s)
       else ebind ReadByte (\<lambda>len s.
            ebind (ReadFull (unat len)) (\<lambda>name.
              recvIdMapping1 localId (idMapping(id \<mapsto> \<lparr>map_Name = name, LocalId = localId id name\<rparr>))) s) s) s"
  by pat_completeness auto
termination
  by (relation "measure (\<lambda>(localId, idMapping, s). length (rx s))")
    (auto dest!: ReadInt32_shrinks ReadByte_shrinks ReadFull_shrinks)

declare recvIdMapping1.simps [simp del]

text \<open>Both lists map a remote id to itself; the maps are returned and not used further.\<close>

definition RecvIdList :: "TransferOpts \<Rightarrow> ('z reader_scheme, (i32 \<rightharpoonup> mapping) \<times> (i32 \<rightharpoonup> mapping)) io" where
  "RecvIdList opts =
     ebind (if PreserveUid opts then recvIdMapping1 (\<lambda>id name. id) Map.empty else ret Map.empty) (\<lambda>users.
     ebind (if PreserveGid opts then recvIdMapping1 (\<lambda>id name. id) Map.empty else ret Map.empty) (\<lambda>groups.
     ret (users, groups)))"

section \<open>The list\<close>

lemma reads_only_receive_name: "reads_only (receive_name flags lst)"
  unfolding receive_name_def
  by (intro reads_only_ebind reads_only_if reads_only_ReadByte reads_only_ReadInt32 reads_only_ret
      reads_only_fail reads_only_ReadFull)

lemma reads_only_receiveFileEntry: "reads_only (receiveFileEntry opts flags lst)"
  unfolding receiveFileEntry_def Let_def
  by (intro reads_only_ebind reads_only_if reads_only_ReadInt64 reads_only_ReadInt32 reads_only_ret
      reads_only_make reads_only_receive_name)

lemma receiveFileEntry_shrinks:
  "receiveFileEntry opts flags lst c = (r, d) \<Longrightarrow> length (rx d) \<le> length (rx c)"
  by (rule shrinksD [where m = "receiveFileEntry opts flags lst",
        OF shrinks_reads [OF reads_only_receiveFileEntry]])

function receive_entries :: "TransferOpts \<Rightarrow> ReceiverFile \<Rightarrow> ('z reader_scheme, ReceiverFile list) io" where
  "receive_entries opts lst s =
     ebind ReadByte (\<lambda>b s.
       if b = 0 then (Inr [], s)
       else ebind (receiveFileEntry opts (ucast b) lst) (\<lambda>f s.
              ebind (receive_entries opts f) (\<lambda>fs. ret (f # fs)) s) s) s"
  by pat_completeness auto
termination
  by (relation "measure (\<lambda>(opts, lst, s). length (rx s))")
    (auto dest!: ReadByte_shrinks receiveFileEntry_shrinks)

declare receive_entries.simps [simp del]

definition ReceiveFileList ::
  "(ReceiverFile list \<Rightarrow> ReceiverFile list) \<Rightarrow> TransferOpts \<Rightarrow> (recvr, ReceiverFile list) io" where
  "ReceiveFileList srt opts =
     ebind (receive_entries opts (zero_ReceiverFile\<lparr>ModTime := zero_time\<rparr>)) (\<lambda>entries.
     let fileList = SortFileList srt entries
     in ebind (if PreserveUid opts \<or> PreserveGid opts
               then ebind (RecvIdList opts) (\<lambda>_. ret ()) else ret ()) (\<lambda>_.
        ebind ReadInt32 (\<lambda>ioErrors s.
        (Inr fileList, s\<lparr>IOErrors := ioErrors\<rparr>))))"

section \<open>What the receiver lets through\<close>

lemma split_join: "es \<noteq> [] \<Longrightarrow> \<forall>e \<in> set es. slash \<notin> set e \<Longrightarrow> split_slash (join_slash es) = es"
proof (induction es rule: join_slash.induct)
  case (2 e)
  then show ?case by (induction e) auto
next
  case (3 e f es)
  then have rest: "split_slash (join_slash (f # es)) = f # es" and e: "slash \<notin> set e" by auto
  have "split_slash (e @ slash # xs) = e # split_slash xs" for xs
    using e by (induction e) auto
  with rest show ?case by simp
qed simp

lemma Clean_dots:
  assumes "e \<noteq> []" and "e \<noteq> [dot]" and "e \<noteq> [dot, dot]" and "slash \<notin> set e"
  shows "Clean (join_slash (replicate n [dot, dot] @ [e])) = join_slash (replicate n [dot, dot] @ [e])"
proof -
  let ?es = "replicate n [dot, dot] @ [e]" and ?p = "join_slash (replicate n [dot, dot] @ [e])"
  have sd: "slash \<noteq> dot" by (simp add: slash_def dot_def)
  have "fold (clean_step False) (replicate m [dot, dot]) (replicate k [dot, dot]) = replicate (m + k) [dot, dot]" for m k
  proof (induction m arbitrary: k)
    case (Suc m)
    have "clean_step False [dot, dot] (replicate k [dot, dot]) = replicate (Suc k) [dot, dot]"
      by (cases k) (simp_all add: clean_step_def)
    with Suc [of "Suc k"] show ?case by simp
  qed simp
  from this [of n 0] have f: "fold (clean_step False) ?es [] = e # replicate n [dot, dot]"
    using assms(1-3) by (simp add: clean_step_def)
  have sp: "split_slash ?p = ?es" by (rule split_join) (use assms(4) sd in auto)
  have hd: "?p \<noteq> []" "(hd ?p = slash) = False"
    using assms(1,4) sd by (cases n; cases e; cases "n - 1"; force)+
  have "rev (e # replicate n [dot, dot]) = ?es" by simp
  with hd show ?thesis by (simp only: Clean_def Let_def sp f if_False)
qed

text \<open>
  C35: names are cleaned but not confined: a peer can name any path above the destination; the name
  ../../...../e arrives as it is, for every number of levels.
\<close>
theorem name_may_leave_destination:
  assumes "e \<noteq> []" and "e \<noteq> [dot]" and "e \<noteq> [dot, dot]" and "slash \<notin> set e"
    and "name = join_slash (replicate n [dot, dot] @ [e])" and "length name < 4096"
    and "rx s = le_enc 4 (word_of_nat (length name) :: i32) @ name @ q"
  shows "\<exists>s'. receive_name XMIT_LONG_NAME lst s = (Inr name, s') \<and> rx s' = q"
proof -
  have l: "sint (word_of_nat (length name) :: i32) = int (length name)"
    using assms(6) by (intro sint_word_of_nat32) simp
  have "rx (advance 4 s) = name @ q" using assms(7) by simp
  then have r: "ReadFull (length name) (advance 4 s) = (Inr name, advance (length name) (advance 4 s))"
    by (rule ReadFull_append) simp
  have "Clean name = name" using Clean_dots [OF assms(1-4), of n] assms(5) by simp
  with ReadInt32_enc [OF assms(7)] l r assms(6,7) show ?thesis
    by (simp add: receive_name_def ebind_def XMIT_defs PATH_MAX_def)
qed

theorem name_may_leave_destination_witness:
  "\<exists>s'. receive_name XMIT_LONG_NAME zero_ReceiverFile
      \<lparr>rx = le_enc 4 (word_of_nat (length ([46, 46, 47, 46, 46, 47, 120 :: byte])) :: i32) @ [46, 46, 47, 46, 46, 47, 120 :: byte] @ [1], nread = 0\<rparr> =
    (Inr ([46, 46, 47, 46, 46, 47, 120 :: byte]), s') \<and> rx s' = [1]"
  by (rule name_may_leave_destination [where n = "Suc (Suc 0)" and e = "[120]"])
    (simp_all add: dot_def slash_def)

text \<open>
  C36: a negative name length from the peer is not caught by the overflow check: the allocation panics.
\<close>
theorem negative_name_length_panics:
  assumes "rx s = le_enc 4 (l :: i32) @ q" and "sint l < 0"
  shows "receive_name XMIT_LONG_NAME lst s = (Inl (Panic ''makeslice: len out of range''), advance 4 s)"
  using ReadInt32_enc [OF assms(1)] assms(2) by (simp add: receive_name_def ebind_def XMIT_defs PATH_MAX_def)

theorem negative_name_length_panics_witness:
  "receive_name XMIT_LONG_NAME zero_ReceiverFile \<lparr>rx = le_enc 4 (-2 :: i32) @ [], nread = 0\<rparr> =
    (Inl (Panic ''makeslice: len out of range''), advance 4 \<lparr>rx = le_enc 4 (-2 :: i32) @ [], nread = 0\<rparr>)"
  by (rule negative_name_length_panics [where l = "-2" and q = "[]"]) simp_all

end
