(* ===== verification/SendList.thy ===== *)
theory SendList
  imports Options RecvList Checksum
begin

unbundle bit_operations_syntax

text \<open>
  rsyncsender/flist.go: the sender's file list, built in a buffer and written in one piece, and
  what rsyncsender/stat.go knows of owners and devices.
\<close>

section \<open>Surroundings\<close>

text \<open>
  The caller's \<open>List\<close>, \<open>os.Readlink\<close>, \<open>os.Open\<close> (for checksums), the user and group databases.
\<close>

record list_env =
  l_list :: "bytes \<Rightarrow> err + FileInfo list"
  l_readlink :: "bytes \<Rightarrow> err + bytes"
  l_open :: "bytes \<Rightarrow> bytes option"
  l_user :: "i32 \<Rightarrow> bytes option"
  l_group :: "i32 \<Rightarrow> bytes option"
  l_md4 :: "bytes \<Rightarrow> bytes"

definition uidFromFileInfo :: "FileInfo \<Rightarrow> i32 \<times> bool" where "uidFromFileInfo i = (1000, False)"
definition gidFromFileInfo :: "FileInfo \<Rightarrow> i32 \<times> bool" where "gidFromFileInfo i = (1000, False)"
definition rdevFromFileInfo :: "FileInfo \<Rightarrow> i32 \<times> bool" where "rdevFromFileInfo i = (1000, False)"

record fileList =
  TotalSize :: i64
  Files :: "SenderFile list"

text \<open>The buffer, the list and the two id maps (in the order of insertion), with the variable \<open>err\<close>.\<close>

record list_state =
  fec :: bytes
  flist :: fileList
  uidMap :: "(i32 \<times> bytes) list"
  gidMap :: "(i32 \<times> bytes) list"
  lerr :: "err option"

section \<open>The mode of an entry\<close>

definition entry_mode :: "u32 \<Rightarrow> i32" where
  "entry_mode m =
     (let ty = m AND ModeType;
          m0 = m AND ModePerm;
          m1 = (if IsDir m then m0 OR S_IFDIR
                else if IsRegular m then m0 OR S_IFREG
                else if ty AND ModeSymlink \<noteq> 0 then m0 OR S_IFLNK else m0);
          m2 = (if ty AND ModeCharDevice \<noteq> 0 then m1 OR S_IFCHR
                else if ty AND ModeDevice \<noteq> 0 then m1 OR S_IFBLK else m1);
          m3 = (if ty AND ModeNamedPipe \<noteq> 0 then m2 OR S_IFIFO else m2)
      in if ty AND ModeSocket \<noteq> 0 then m3 OR S_IFSOCK else m3)"

definition entry_isDev :: "u32 \<Rightarrow> bool" where
  "entry_isDev m \<longleftrightarrow> (m AND ModeType) AND ModeCharDevice \<noteq> 0 \<or> (m AND ModeType) AND ModeDevice \<noteq> 0"

definition entry_isSpecial :: "u32 \<Rightarrow> bool" where
  "entry_isSpecial m \<longleftrightarrow> (m AND ModeType) AND ModeNamedPipe \<noteq> 0 \<or> (m AND ModeType) AND ModeSocket \<noteq> 0"

section \<open>One entry\<close>

definition entry_name :: "bytes \<Rightarrow> bytes \<times> byte" where
  "entry_name name =
     (if name = [slash] then ([dot], ucast (XMIT_LONG_NAME OR XMIT_TOP_DIR))
      else (name, ucast XMIT_LONG_NAME))"

definition entry_size :: "FileInfo \<Rightarrow> i64" where
  "entry_size i = (if IsDir (fiMode i) then 4096 else word_of_int (fiSize i))"

text \<open>Fields 1 to 7, which every entry has.\<close>

definition write_fixed :: "FileInfo \<Rightarrow> bytes \<Rightarrow> bytes" where
  "write_fixed i b =
     (case entry_name (fiName i) of
        (name, flags) \<Rightarrow>
          Buffer_WriteInt32 (entry_mode (fiMode i))
            (Buffer_WriteInt32 (word_of_int (fiModTime i div 10 ^ 9))
              (Buffer_WriteInt64 (entry_size i)
                (Buffer_WriteString name
                  (Buffer_WriteInt32 (word_of_nat (length name)) (Buffer_WriteByte flags b))))))"

text \<open>A name is looked up once per id that the platform knows.\<close>

definition note_id :: "(i32 \<Rightarrow> bytes option) \<Rightarrow> i32 \<times> bool \<Rightarrow> (i32 \<times> bytes) list \<Rightarrow> (i32 \<times> bytes) list" where
  "note_id lookup found m =
     (case found of
        (uid, ok) \<Rightarrow>
          if ok \<and> uid \<notin> fst ` set m \<and> uid \<noteq> 0
          then (case lookup uid of None \<Rightarrow> m | Some name \<Rightarrow> m @ [(uid, name)]) else m)"

text \<open>Fields 8 to 10.\<close>

definition write_ids :: "list_env \<Rightarrow> Options \<Rightarrow> FileInfo \<Rightarrow> list_state \<Rightarrow> list_state" where
  "write_ids E opt i st =
     (let st1 = (if o_PreserveUid opt
                 then st\<lparr>uidMap := note_id (l_user E) (uidFromFileInfo i) (uidMap st),
                         fec := Buffer_WriteInt32 (fst (uidFromFileInfo i)) (fec st)\<rparr> else st);
          st2 = (if o_PreserveGid opt
                 then st1\<lparr>gidMap := note_id (l_group E) (gidFromFileInfo i) (gidMap st1),
                          fec := Buffer_WriteInt32 (fst (gidFromFileInfo i)) (fec st1)\<rparr> else st1)
      in if (o_PreserveDevices opt \<and> entry_isDev (fiMode i)) \<or>
            (o_PreserveSpecials opt \<and> entry_isSpecial (fiMode i))
         then st2\<lparr>fec := Buffer_WriteInt32 (fst (rdevFromFileInfo i)) (fec st2)\<rparr> else st2)"

text \<open>The checksum of \<open>--checksum\<close>; a failure leaves \<open>err\<close> set and the entry unfinished.\<close>

definition write_checksum :: "list_env \<Rightarrow> Options \<Rightarrow> FileInfo \<Rightarrow> list_state \<Rightarrow> list_state" where
  "write_checksum E opt i st =
     (if o_AlwaysChecksum opt then
        (if IsRegular (fiMode i) then
           (case FileChecksum (l_md4 E) (l_open E) (fiName i) of
              Inl e \<Rightarrow> st\<lparr>lerr := Some e\<rparr>
            | Inr c \<Rightarrow> st\<lparr>lerr := None, fec := Buffer_WriteString c (fec st)\<rparr>)
         else st\<lparr>fec := Buffer_WriteString (replicate Size 0) (fec st)\<rparr>)
      else st)"

definition send_entry :: "list_env \<Rightarrow> Options \<Rightarrow> filterRuleList \<Rightarrow> FileInfo \<Rightarrow> list_state \<Rightarrow> err + list_state" where
  "send_entry E opt excl i st =
     (case matches excl (fst (entry_name (fiName i))) of
        Inl e \<Rightarrow> Inl e
      | Inr True \<Rightarrow> Inr st
      | Inr False \<Rightarrow>
          (let st1 = st\<lparr>flist := \<lparr>TotalSize = TotalSize (flist st) + entry_size i,
                         Files = Files (flist st) @ [\<lparr>Path = [slash],
                           WPath = fst (entry_name (fiName i)), Regular = IsRegular (fiMode i)\<rparr>]\<rparr>,
                       fec := write_fixed i (fec st)\<rparr>;
               st2 = write_ids E opt i st1
           in if o_PreserveLinks opt \<and> (fiMode i AND ModeType) AND ModeSymlink \<noteq> 0 then
                (case l_readlink E (fiName i) of
                   Inl e \<Rightarrow> Inr st2
                 | Inr t \<Rightarrow> Inr (write_checksum E opt i
                     (st2\<lparr>fec := Buffer_WriteString t
                            (Buffer_WriteInt32 (word_of_nat (length t)) (fec st2))\<rparr>)))
              else Inr (write_checksum E opt i st2)))"

section \<open>The list\<close>

fun send_entries :: "list_env \<Rightarrow> Options \<Rightarrow> filterRuleList \<Rightarrow> FileInfo list \<Rightarrow> list_state \<Rightarrow> err + list_state" where
  "send_entries E opt excl [] st = Inr st"
| "send_entries E opt excl (i # is) st =
     (case send_entry E opt excl i st of
        Inl e \<Rightarrow> Inl e
      | Inr st' \<Rightarrow> send_entries E opt excl is st')"

fun send_paths :: "list_env \<Rightarrow> Options \<Rightarrow> filterRuleList \<Rightarrow> bytes list \<Rightarrow> list_state \<Rightarrow> err + list_state" where
  "send_paths E opt excl [] st = Inr st"
| "send_paths E opt excl (p # ps) st =
     (case l_list E p of
        Inl e \<Rightarrow> Inl e
      | Inr files \<Rightarrow>
          (case send_entries E opt excl files (st\<lparr>lerr := None\<rparr>) of
             Inl e \<Rightarrow> Inl e
           | Inr st' \<Rightarrow>
               (case lerr st' of Some e \<Rightarrow> Inl e | None \<Rightarrow> send_paths E opt excl ps st')))"

definition write_id_map :: "(i32 \<times> bytes) list \<Rightarrow> bytes \<Rightarrow> bytes" where
  "write_id_map m b =
     Buffer_WriteInt32 0
       (fold (\<lambda>(id, name) b. Buffer_WriteString name
                (Buffer_WriteByte (word_of_nat (length name)) (Buffer_WriteInt32 id b))) m b)"

definition write_trailer :: "Options \<Rightarrow> list_state \<Rightarrow> bytes" where
  "write_trailer opt st =
     (let b1 = Buffer_WriteByte 0 (fec st);
          b2 = (if o_PreserveUid opt then write_id_map (uidMap st) b1 else b1);
          b3 = (if o_PreserveGid opt then write_id_map (gidMap st) b2 else b2)
      in Buffer_WriteInt32 0 b3)"

definition SendFileList ::
  "list_env \<Rightarrow> Options \<Rightarrow> bytes list \<Rightarrow> filterRuleList \<Rightarrow> ('z conn_scheme, fileList) io" where
  "SendFileList E opt paths excl =
     (case send_paths E opt excl paths
             \<lparr>fec = [], flist = \<lparr>TotalSize = 0, Files = []\<rparr>, uidMap = [], gidMap = [], lerr = None\<rparr> of
        Inl e \<Rightarrow> fail e
      | Inr st \<Rightarrow> ebind (WriteString (write_trailer opt st)) (\<lambda>_. ret (flist st)))"

end
