(* ===== verification/Generator.thy ===== *)
theory Generator
  imports RecvData Signature
begin

text \<open>
  rsyncreceiver/generator.go: for every regular file of the list that is missing or out of date
  the generator asks for the file, with the signature of the local copy if there is one.
\<close>

section \<open>skipFile\<close>

definition skipFile :: "TransferOpts \<Rightarrow> ReceiverFile \<Rightarrow> FileInfo \<Rightarrow> bool" where
  "skipFile opts f st =
     (if AlwaysChecksum opts \<or> IgnoreTimes opts then False
      else
        (let sizeMatch = (fiSize st = sint (Length f))
         in if SizeOnly opts then sizeMatch
            else (let timeMatch = (fiModTime st = ModTime f) in sizeMatch \<and> timeMatch)))"

section \<open>recvGenerator\<close>

definition requestFullFile :: "recv_env \<Rightarrow> nat \<Rightarrow> ('z conn_scheme, unit) io" where
  "requestFullFile E idx =
     ebind (WriteInt32 (word_of_nat idx)) (\<lambda>_.
       if DryRun (r_opts E) then ret () else WriteTo zero_SumHead)"

definition recvGenerator :: "recv_env \<Rightarrow> nat \<Rightarrow> ReceiverFile \<Rightarrow> ('z conn_scheme, unit) io" where
  "recvGenerator E idx f =
     (if listOnly E then ret ()
      else if \<not> IsRegular (FileMode f) then ret ()
      else
        (case r_read E \<lparr>Path = [], WPath = Name f, Regular = False\<rparr> of
           Inl e \<Rightarrow> requestFullFile E idx
         | Inr (st, inp) \<Rightarrow>
             if skipFile (r_opts E) f st then ret ()
             else if DryRun (r_opts E) then WriteInt32 (word_of_nat idx)
             else ebind (WriteInt32 (word_of_nat idx)) (\<lambda>_.
                    generateAndSendSums (r_md4 E) (r_seed E) \<lparr>rx = inp, nread = 0\<rparr> (fiSize st))))"

section \<open>GenerateFiles\<close>

fun GenerateFiles_loop :: "recv_env \<Rightarrow> nat \<Rightarrow> ReceiverFile list \<Rightarrow> ('z conn_scheme, unit) io" where
  "GenerateFiles_loop E idx [] = ret ()"
| "GenerateFiles_loop E idx (f # fs) =
     ebind (recvGenerator E idx f) (\<lambda>_. GenerateFiles_loop E (idx + 1) fs)"

definition GenerateFiles :: "recv_env \<Rightarrow> ReceiverFile list \<Rightarrow> ('z conn_scheme, unit) io" where
  "GenerateFiles E fileList =
     ebind (GenerateFiles_loop E 0 fileList) (\<lambda>_.
     ebind (WriteInt32 (-1)) (\<lambda>_.
     WriteInt32 (-1)))"

end
