(* ===== verification/HashTable.thy ===== *)
theory HashTable
  imports TokensSpec SortSlice
begin

text \<open>
  The signature table of rsyncsender/sender.go (\<open>SendFiles\<close>): the targets sorted by the 16-bit
  tag of their fast checksum, and the table from a tag to the first target that carries it.
  The sort is a parameter with the contract \<open>slice_sort\<close>.
\<close>

section \<open>The targets\<close>

record target =
  index :: int
  tag :: u16

definition make_targets :: "SumHead \<Rightarrow> target list" where
  "make_targets head = map (\<lambda>idx. \<lparr>index = int idx, tag = Tag (Sum1 (Sums head ! idx))\<rparr>) [0..<length (Sums head)]"

definition build_targets :: "(target list \<Rightarrow> target list) \<Rightarrow> SumHead \<Rightarrow> target list" where
  "build_targets srt head = srt (make_targets head)"

text \<open>\<open>for idx := len(head.Sums) - 1; idx >= 0; idx--\<close>; the argument is the number of rounds left.\<close>

fun tag_loop :: "target list \<Rightarrow> nat \<Rightarrow> (u16 \<rightharpoonup> int) \<Rightarrow> (u16 \<rightharpoonup> int)" where
  "tag_loop targets 0 m = m"
| "tag_loop targets (Suc n) m = tag_loop targets n (m(tag (targets ! n) \<mapsto> int n))"

definition build_tagTable :: "target list \<Rightarrow> (u16 \<rightharpoonup> int)" where
  "build_tagTable targets = tag_loop targets (length targets) Map.empty"

lemma tag_loop_Some:
  "tag_loop targets n m t = Some j \<longleftrightarrow>
     (if \<exists>i < n. tag (targets ! i) = t
      then 0 \<le> j \<and> nat j < n \<and> tag (targets ! nat j) = t \<and> (\<forall>i < nat j. tag (targets ! i) \<noteq> t)
      else m t = Some j)"
proof (induction n arbitrary: m)
  case 0
  then show ?case by simp
next
  case (Suc n)
  show ?case
  proof (cases "\<exists>i < n. tag (targets ! i) = t")
    case True
    then obtain i where i: "i < n" "tag (targets ! i) = t" by blast
    then have "nat j < Suc n \<and> (\<forall>i < nat j. tag (targets ! i) \<noteq> t) \<Longrightarrow> nat j < n" by (metis linorder_cases less_antisym)
    with True Suc i show ?thesis by (auto simp: less_Suc_eq)
  next
    case False
    then show ?thesis by (auto simp: Suc less_Suc_eq)
  qed
qed

lemma build_tagTable_Some:
  "build_tagTable targets t = Some j \<longleftrightarrow>
     0 \<le> j \<and> nat j < length targets \<and> tag (targets ! nat j) = t \<and> (\<forall>i < nat j. tag (targets ! i) \<noteq> t)"
  unfolding build_tagTable_def tag_loop_Some by auto

lemma build_tagTable_None:
  "build_tagTable targets t = None \<longleftrightarrow> (\<forall>i < length targets. tag (targets ! i) \<noteq> t)"
proof
  assume none: "build_tagTable targets t = None"
  show "\<forall>i < length targets. tag (targets ! i) \<noteq> t"
  proof (rule ccontr)
    assume "\<not> ?thesis"
    then obtain i where i: "i < length targets" "tag (targets ! i) = t"
      "\<forall>m < i. \<not> (m < length targets \<and> tag (targets ! m) = t)"
      using exists_least_iff [of "\<lambda>i. i < length targets \<and> tag (targets ! i) = t"] by blast
    then have "\<forall>m < i. tag (targets ! m) \<noteq> t" by auto
    with i(1,2) have "build_tagTable targets t = Some (int i)"
      by (subst build_tagTable_Some) simp
    with none show False by simp
  qed
next
  assume all: "\<forall>i < length targets. tag (targets ! i) \<noteq> t"
  show "build_tagTable targets t = None"
  proof (rule ccontr)
    assume "build_tagTable targets t \<noteq> None"
    then obtain j where "build_tagTable targets t = Some j" by blast
    with all show False unfolding build_tagTable_Some by blast
  qed
qed

section \<open>A table that serves a signature\<close>

definition targets_ok :: "SumHead \<Rightarrow> target list \<Rightarrow> bool" where
  "targets_ok head targets \<longleftrightarrow>
     length targets = length (Sums head) \<and> sorted (map tag targets) \<and>
     set targets = {\<lparr>index = int i, tag = Tag (Sum1 (Sums head ! i))\<rparr> | i. i < length (Sums head)}"

lemma build_targets_ok:
  assumes "slice_sort srt tag"
  shows "targets_ok head (build_targets srt head)"
  using slice_sort.ordered [OF assms] slice_sort.set_srt [OF assms] slice_sort.length_srt [OF assms]
  by (auto simp: targets_ok_def build_targets_def make_targets_def)

lemma targets_okD:
  assumes "targets_ok head targets" and "j < length targets"
  shows "0 \<le> index (targets ! j)" and "nat (index (targets ! j)) < length (Sums head)"
    and "tag (targets ! j) = Tag (Sum1 (Sums head ! nat (index (targets ! j))))"
  using assms nth_mem [OF assms(2)] by (auto simp: targets_ok_def)

text \<open>Every block of the signature is reached from the table's entry for its tag.\<close>

lemma targets_ok_reach:
  assumes ok: "targets_ok head targets" and i: "i < length (Sums head)"
  shows "\<exists>j j'. build_tagTable targets (Tag (Sum1 (Sums head ! i))) = Some (int j) \<and> j \<le> j' \<and>
    j' < length targets \<and> index (targets ! j') = int i \<and>
    (\<forall>m. j \<le> m \<and> m \<le> j' \<longrightarrow> tag (targets ! m) = Tag (Sum1 (Sums head ! i)))"
proof -
  let ?t = "Tag (Sum1 (Sums head ! i))"
  have "\<lparr>index = int i, tag = ?t\<rparr> \<in> set targets" using ok i by (auto simp: targets_ok_def)
  then obtain j' where j': "j' < length targets" "targets ! j' = \<lparr>index = int i, tag = ?t\<rparr>"
    by (auto simp: in_set_conv_nth)
  then have "build_tagTable targets ?t \<noteq> None" by (auto simp: build_tagTable_None)
  then obtain z where z: "build_tagTable targets ?t = Some z" by auto
  note zs = z [unfolded build_tagTable_Some]
  have le: "nat z \<le> j'" using zs j' by (metis not_le target.select_convs(2))
  have "tag (targets ! m) = ?t" if "nat z \<le> m" "m \<le> j'" for m
  proof (rule antisym)
    have srt: "sorted (map tag targets)" using ok by (simp add: targets_ok_def)
    show "tag (targets ! m) \<le> ?t" using sorted_nth_mono [OF srt that(2)] j' that by simp
    show "?t \<le> tag (targets ! m)" using sorted_nth_mono [OF srt that(1)] j' that zs by simp
  qed
  with z zs le j' show ?thesis by (intro exI [of _ "nat z"] exI [of _ j']) simp
qed

section \<open>The table is exact\<close>

text \<open>
  C17: whatever sort.Slice does with equal tags, the tag table that SendFiles builds sends every tag
  to the first target that carries it, the targets with that tag follow without a gap, they are all
  the blocks of the signature with that tag, and a tag without an entry belongs to no block.
\<close>
theorem tag_table_exact:
  assumes "slice_sort srt tag"
  shows "case build_tagTable (build_targets srt head) t of
      None \<Rightarrow> (\<forall>i < length (Sums head). Tag (Sum1 (Sums head ! i)) \<noteq> t)
    | Some j \<Rightarrow> 0 \<le> j \<and> (\<forall>i < length (Sums head). Tag (Sum1 (Sums head ! i)) = t \<longleftrightarrow>
        (\<exists>j'. nat j \<le> j' \<and> j' < length (build_targets srt head) \<and> index (build_targets srt head ! j') = int i \<and>
           (\<forall>m. nat j \<le> m \<and> m \<le> j' \<longrightarrow> tag (build_targets srt head ! m) = t)))"
proof -
  define targets where "targets = build_targets srt head"
  have ok: "targets_ok head targets" unfolding targets_def by (rule build_targets_ok [OF assms])
  show ?thesis
  proof (cases "build_tagTable targets t")
    case None
    then show ?thesis using targets_ok_reach [OF ok] unfolding targets_def by fastforce
  next
    case (Some j)
    have "Tag (Sum1 (Sums head ! i)) = t \<longleftrightarrow> (\<exists>j'. nat j \<le> j' \<and> j' < length targets \<and> index (targets ! j') = int i \<and>
           (\<forall>m. nat j \<le> m \<and> m \<le> j' \<longrightarrow> tag (targets ! m) = t))" if i: "i < length (Sums head)" for i
    proof
      assume "Tag (Sum1 (Sums head ! i)) = t"
      with targets_ok_reach [OF ok i] Some show "\<exists>j'. nat j \<le> j' \<and> j' < length targets \<and> index (targets ! j') = int i \<and>
           (\<forall>m. nat j \<le> m \<and> m \<le> j' \<longrightarrow> tag (targets ! m) = t)" by (auto intro: exI)
    next
      assume "\<exists>j'. nat j \<le> j' \<and> j' < length targets \<and> index (targets ! j') = int i \<and>
           (\<forall>m. nat j \<le> m \<and> m \<le> j' \<longrightarrow> tag (targets ! m) = t)"
      then obtain j' where j': "j' < length targets" "index (targets ! j') = int i" "tag (targets ! j') = t" by blast
      with targets_okD(3) [OF ok j'(1)] show "Tag (Sum1 (Sums head ! i)) = t" by simp
    qed
    with Some build_tagTable_Some [of targets t j] show ?thesis unfolding targets_def by simp
  qed
qed

theorem tag_table_exact_witness:
  "case build_tagTable (build_targets (sort_key tag) (signature (\<lambda>x. replicate 16 0) 666 [1, 2, 3])) 5 of
      None \<Rightarrow> (\<forall>i < length (Sums (signature (\<lambda>x. replicate 16 0) 666 [1, 2, 3])). Tag (Sum1 (Sums (signature (\<lambda>x. replicate 16 0) 666 [1, 2, 3]) ! i)) \<noteq> 5)
    | Some j \<Rightarrow> 0 \<le> j \<and> (\<forall>i < length (Sums (signature (\<lambda>x. replicate 16 0) 666 [1, 2, 3])). Tag (Sum1 (Sums (signature (\<lambda>x. replicate 16 0) 666 [1, 2, 3]) ! i)) = 5 \<longleftrightarrow>
        (\<exists>j'. nat j \<le> j' \<and> j' < length (build_targets (sort_key tag) (signature (\<lambda>x. replicate 16 0) 666 [1, 2, 3])) \<and>
           index (build_targets (sort_key tag) (signature (\<lambda>x. replicate 16 0) 666 [1, 2, 3]) ! j') = int i \<and>
           (\<forall>m. nat j \<le> m \<and> m \<le> j' \<longrightarrow> tag (build_targets (sort_key tag) (signature (\<lambda>x. replicate 16 0) 666 [1, 2, 3]) ! m) = 5)))"
  by (rule tag_table_exact) (rule key_sort.slice_sort_axioms)

end
