(* ===== verification/HashSearch.thy ===== *)
theory HashSearch
  imports HashTable Utils
begin

text \<open>
  The search of rsyncsender/match.go (\<open>hashSearch\<close>): the sender slides a window over its file,
  looks the rolling checksum up in the table and sends a reference for every block it recognises,
  literals for the rest.
\<close>

section \<open>The candidates for one window\<close>

definition slice_upto :: "int \<Rightarrow> 'a list \<Rightarrow> ('s, 'a list) io" where
  "slice_upto n xs =
     (if 0 \<le> n \<and> n \<le> int (length xs) then ret (take (nat n) xs)
      else fail (Panic ''slice bounds out of range''))"

definition target_at :: "target list \<Rightarrow> int \<Rightarrow> ('s, target) io" where
  "target_at targets j =
     (if 0 \<le> j \<and> j < int (length targets) then ret (targets ! nat j)
      else fail (Panic ''index out of range''))"

text \<open>\<open>l := int64(head.BlockLength); if v := fi.Size() - offset; v < l { l = v }\<close>\<close>

definition block_at :: "SumHead \<Rightarrow> int \<Rightarrow> int \<Rightarrow> int" where
  "block_at head fsize offset =
     (if fsize - offset < sint (BlockLength head) then fsize - offset else sint (BlockLength head))"

text \<open>
  The loop over the targets with the tag \<open>tg\<close>; \<open>sum2\<close> is the strong checksum of the window once
  it has been computed.  The result is the block that matches, if there is one.
\<close>

function find_match ::
  "(bytes \<Rightarrow> bytes) \<Rightarrow> i32 \<Rightarrow> SumHead \<Rightarrow> target list \<Rightarrow> int \<Rightarrow> int \<Rightarrow> u16 \<Rightarrow> u32 \<Rightarrow> bytes option \<Rightarrow> int \<Rightarrow>
   (search, int option) io" where
  "find_match md4 seed head targets fsize offset tg csum sum2 j =
     (if j < sint (ChecksumCount head) then
        ebind (target_at targets j) (\<lambda>tgt.
          if tag tgt \<noteq> tg then ret None
          else ebind (Sums_at head (index tgt)) (\<lambda>sb.
            if csum \<noteq> Sum1 sb then find_match md4 seed head targets fsize offset tg csum sum2 (j + 1)
            else
              (let l = block_at head fsize offset
               in if l \<noteq> Len sb
                  then find_match md4 seed head targets fsize offset tg csum sum2 (j + 1)
                  else ebind (case sum2 of
                                Some c \<Rightarrow> ret c
                              | None \<Rightarrow> ebind (ms_ptr offset (to_int32 l))
                                         (\<lambda>buf. ret (Checksum2 md4 seed buf))) (\<lambda>c.
                       ebind (slice_upto (sint (ChecksumLength head)) c) (\<lambda>here.
                       ebind (slice_upto (sint (ChecksumLength head)) (Sum2 sb)) (\<lambda>remote.
                       if here \<noteq> remote
                       then find_match md4 seed head targets fsize offset tg csum (Some c) (j + 1)
                       else ret (Some (index tgt))))))))
      else ret None)"
  by pat_completeness auto
termination
  by (relation "measure (\<lambda>(md4, seed, head, targets, fsize, offset, tg, csum, sum2, j).
        nat (sint (ChecksumCount head) - j))") auto

declare find_match.simps [simp del]

section \<open>One round of the search\<close>

definition readChunk :: "SumHead \<Rightarrow> int \<Rightarrow> int \<Rightarrow> (search, int \<times> u32 \<times> u32) io" where
  "readChunk head fsize offset =
     (let k = block_at head fsize offset
      in ebind (ms_ptr offset (to_int32 k)) (\<lambda>chunk.
           let csum = Checksum1 chunk
           in ret (k, csum AND 0xFFFF, drop_bit 16 csum)))"

definition byte_at :: "bytes \<Rightarrow> int \<Rightarrow> ('s, byte) io" where
  "byte_at xs i =
     (if 0 \<le> i \<and> i < int (length xs) then ret (xs ! nat i) else fail (Panic ''index out of range''))"

text \<open>
  The end of a round: the rolling update, the flush of literals that have piled up, the step to
  the next byte.  The result is the next offset, \<open>k\<close>, \<open>s1\<close> and \<open>s2\<close>, or \<open>None\<close> when the search is over.
\<close>

definition roll_step ::
  "SumHead \<Rightarrow> int \<Rightarrow> int \<Rightarrow> int \<times> int \<times> u32 \<times> u32 \<Rightarrow> (search, (int \<times> int \<times> u32 \<times> u32) option) io" where
  "roll_step head fsize end_off v s =
     (let (offset, k, s1, s2) = v;
          backup = max (offset - lastMatch s) 0;
          more = offset + k < fsize;
          mmore = (if more then 1 else 0)
      in ebind (ms_ptr (offset - backup) (to_int32 (k + mmore + backup))) (\<lambda>update.
           if backup > int (length update) then fail (Panic ''slice bounds out of range'')
           else
             (let update = drop (nat backup) update
              in ebind (byte_at update 0) (\<lambda>old.
                 ebind (if more then ebind (byte_at update k) (\<lambda>b. ret (Some b)) else ret None) (\<lambda>new.
                 let (t1, t2) = roll_update s1 s2 (nat k) old new;
                     k' = (if more then k else k - 1)
                 in ebind (if backup \<ge> sint (BlockLength head) + chunkSize \<and> end_off - offset > chunkSize
                           then matched head (offset - sint (BlockLength head)) (-2) else ret ()) (\<lambda>_.
                    if offset + 1 \<ge> end_off then ret None
                    else ret (Some (offset + 1, k', t1, t2))))))) s)"

definition hs_step ::
  "(bytes \<Rightarrow> bytes) \<Rightarrow> i32 \<Rightarrow> SumHead \<Rightarrow> target list \<Rightarrow> (u16 \<rightharpoonup> int) \<Rightarrow> int \<Rightarrow> int \<Rightarrow>
   int \<times> int \<times> u32 \<times> u32 \<Rightarrow> (search, (int \<times> int \<times> u32 \<times> u32) option) io" where
  "hs_step md4 seed head targets tagTable fsize end_off v =
     (let (offset, k, s1, s2) = v; tg = Tag2 (ucast s1) (ucast s2)
      in ebind (case tagTable tg of
                  None \<Rightarrow> ret None
                | Some j \<Rightarrow> find_match md4 seed head targets fsize offset tg
                              ((s1 AND 0xFFFF) OR push_bit 16 s2) None j) (\<lambda>m.
           case m of
             None \<Rightarrow> roll_step head fsize end_off v
           | Some i \<Rightarrow>
               ebind (matched head offset i) (\<lambda>_.
               ebind (Sums_at head i) (\<lambda>sb.
               let offset' = offset + (Len sb - 1)
               in ebind (readChunk head fsize offset') (\<lambda>(k', s1', s2').
                    if offset' \<ge> end_off then ret None
                    else roll_step head fsize end_off (offset', k', s1', s2'))))))"

section \<open>The search\<close>

fun hs_loop ::
  "(bytes \<Rightarrow> bytes) \<Rightarrow> i32 \<Rightarrow> SumHead \<Rightarrow> target list \<Rightarrow> (u16 \<rightharpoonup> int) \<Rightarrow> int \<Rightarrow> int \<Rightarrow> nat \<Rightarrow>
   int \<times> int \<times> u32 \<times> u32 \<Rightarrow> (search, unit) run" where
  "hs_loop md4 seed head targets tagTable fsize end_off 0 v s = None"
| "hs_loop md4 seed head targets tagTable fsize end_off (Suc fuel) v s =
     rbind (lift (hs_step md4 seed head targets tagTable fsize end_off v)) (\<lambda>r.
       case r of
         None \<Rightarrow> lift (ret ())
       | Some v' \<Rightarrow> hs_loop md4 seed head targets tagTable fsize end_off fuel v') s"

text \<open>\<open>head.Sums[len(head.Sums)-1]\<close>\<close>

definition last_sum :: "SumHead \<Rightarrow> ('s, SumBuf) io" where
  "last_sum head = Sums_at head (int (length (Sums head)) - 1)"

definition hs_body ::
  "(bytes \<Rightarrow> bytes) \<Rightarrow> i32 \<Rightarrow> SumHead \<Rightarrow> target list \<Rightarrow> (u16 \<rightharpoonup> int) \<Rightarrow> int \<Rightarrow> nat \<Rightarrow> (search, unit) run" where
  "hs_body md4 seed head targets tagTable fsize fuel =
     rbind (lift (last_sum head)) (\<lambda>sb.
       let end_off = fsize + 1 - Len sb
       in rbind (lift (readChunk head fsize 0)) (\<lambda>(k, s1, s2).
          rbind (hs_loop md4 seed head targets tagTable fsize end_off fuel (0, k, s1, s2)) (\<lambda>_.
          rbind (lift (matched head fsize (-1))) (\<lambda>_ s.
          lift (conn_Write (md4 (hsum s))) s))))"

text \<open>A computation of the search, run from a \<open>Transfer\<close> with a fresh hash and a fresh window.\<close>

definition within_search :: "bytes \<Rightarrow> mapStruct \<Rightarrow> (search, 'a) run \<Rightarrow> (transfer, 'a) run" where
  "within_search h m prog t =
     map_option (\<lambda>(r, s). (r, transfer.truncate s)) (prog (transfer.extend t (search.fields h m)))"

text \<open>\<open>osopen\<close> is \<open>os.OpenFile\<close> with the size that \<open>Stat\<close> reports for the file.\<close>

definition hashSearch ::
  "(bytes \<Rightarrow> bytes) \<Rightarrow> i32 \<Rightarrow> (bytes \<Rightarrow> err + osfile \<times> int) \<Rightarrow> nat \<Rightarrow> target list \<Rightarrow> (u16 \<rightharpoonup> int) \<Rightarrow>
   SumHead \<Rightarrow> i32 \<Rightarrow> SenderFile \<Rightarrow> (transfer, unit) run" where
  "hashSearch md4 seed osopen fuel targets tagTable head fileIndex fl =
     (case osopen (Path fl) of
        Inl e \<Rightarrow> lift (fail e)
      | Inr (f, fsize) \<Rightarrow>
          (let readSize = max (sint (3 * BlockLength head)) (256 * 1024);
               ms = mapFile f fsize readSize (sint (BlockLength head))
           in rbind (lift (WriteInt32 fileIndex)) (\<lambda>_.
              rbind (lift (WriteTo head)) (\<lambda>_.
              within_search (le_enc 4 seed) ms
                (hs_body md4 seed head targets tagTable fsize fuel)))))"

end
