(* ===== verification/HashSearchSpec.thy ===== *)
theory HashSearchSpec
  imports HashSearch
begin

text \<open>
  What the search does on a signature of the expected shape (\<open>head_ready\<close>) and a file the window
  can deliver: a round either sends the block that matches at the offset or moves on by one byte
  with the rolling sums exact, every round gets nearer to the end, and the stream spells the file.
\<close>

section \<open>Candidates\<close>

definition head_ready :: "SumHead \<Rightarrow> bool" where
  "head_ready head \<longleftrightarrow>
     sint (ChecksumCount head) = int (length (Sums head)) \<and> Sums head \<noteq> [] \<and>
     1 \<le> sint (BlockLength head) \<and> sint (BlockLength head) \<le> 2 ^ 29 \<and>
     0 \<le> sint (ChecksumLength head) \<and> sint (ChecksumLength head) \<le> 16 \<and>
     (\<forall>sb \<in> set (Sums head). 1 \<le> Len sb \<and> Len sb \<le> sint (BlockLength head) \<and> length (Sum2 sb) = 16)"

lemma head_ready_bounds:
  assumes "head_ready head"
  shows "sint (ChecksumCount head) = int (length (Sums head))"
    and "1 \<le> sint (BlockLength head)" and "sint (BlockLength head) \<le> 2 ^ 29"
    and "0 \<le> sint (ChecksumLength head)" and "sint (ChecksumLength head) \<le> 16"
  using assms by (auto simp: head_ready_def)

lemma head_ready_sums:
  assumes "head_ready head" and "i < length (Sums head)"
  shows "1 \<le> Len (Sums head ! i)" and "Len (Sums head ! i) \<le> sint (BlockLength head)"
    and "length (Sum2 (Sums head ! i)) = 16"
  using assms nth_mem [OF assms(2)] by (auto simp: head_ready_def)

text \<open>The window at an offset: a block, or what is left of the file.\<close>

definition window_at :: "SumHead \<Rightarrow> bytes \<Rightarrow> int \<Rightarrow> bytes" where
  "window_at head C offset = sub offset (block_at head (int (length C)) offset) C"

lemma block_at_bounds:
  assumes "head_ready head" and "0 \<le> offset" and "offset \<le> fsize"
  shows "0 \<le> block_at head fsize offset" and "offset + block_at head fsize offset \<le> fsize"
    and "to_int32 (block_at head fsize offset) = block_at head fsize offset"
proof -
  have b: "0 \<le> block_at head fsize offset" "block_at head fsize offset \<le> 2 ^ 29"
    using head_ready_bounds [OF assms(1)] assms(2,3) by (auto simp: block_at_def)
  then show "0 \<le> block_at head fsize offset" by simp
  show "to_int32 (block_at head fsize offset) = block_at head fsize offset"
    using b by (intro to_int32_id) auto
  show "offset + block_at head fsize offset \<le> fsize" by (auto simp: block_at_def)
qed

lemma length_window_at:
  assumes "head_ready head" and "0 \<le> offset" and "offset \<le> int (length C)"
  shows "int (length (window_at head C offset)) = block_at head (int (length C)) offset"
  using block_at_bounds [OF assms] assms(2) unfolding window_at_def by (subst length_sub) auto

lemma ms_ptr_window:
  assumes "head_ready head" and "0 \<le> offset" and "offset \<le> int (length C)"
    and "ms_total C (smap s)" and "room s = None"
  shows "\<exists>t. ms_ptr offset (to_int32 (block_at head (int (length C)) offset)) s =
      (Inr (window_at head C offset), t) \<and> wrote s [] t \<and> kept C s t"
  using ms_ptr_total [OF assms(4,5,2)] block_at_bounds [OF assms(1-3)]
  by (simp add: window_at_def)

lemma kept_trans: "kept C s t \<Longrightarrow> kept C t u \<Longrightarrow> kept C s u"
  by (simp add: kept_def)

lemma wrote_none_trans: "wrote s [] t \<Longrightarrow> wrote t [] u \<Longrightarrow> wrote s [] u"
  using wrote_trans [of s "[]" t "[]" u] by simp

text \<open>
  The candidate loop returns a block only if it matches, and returns none only if no target from
  \<open>j\<close> on, up to the first one with another tag, does.
\<close>

lemma find_match_correct:
  assumes T: "targets_ok head targets" and H: "head_ready head"
    and md4: "\<forall>x. length (md4 x) = 16" and off: "0 \<le> offset" "offset \<le> int (length C)"
  defines "p \<equiv> window_at head C offset"
  assumes "ms_total C (smap s)" and "room s = None" and "0 \<le> j"
    and "cached = None \<or> cached = Some (Checksum2 md4 seed p)"
  shows "\<exists>r t. find_match md4 seed head targets (int (length C)) offset tg (Checksum1 p) cached j s = (Inr r, t) \<and>
    wrote s [] t \<and> kept C s t \<and>
    (\<forall>i. r = Some i \<longrightarrow> 0 \<le> i \<and> block_match md4 seed head (nat i) p) \<and>
    (r = None \<longrightarrow> (\<forall>j'. j \<le> int j' \<and> j' < length targets \<and>
        (\<forall>m. j \<le> int m \<and> m \<le> j' \<longrightarrow> tag (targets ! m) = tg) \<longrightarrow>
        \<not> block_match md4 seed head (nat (index (targets ! j'))) p))"
  using assms(7-)
proof (induction "nat (sint (ChecksumCount head) - j)" arbitrary: j cached s rule: less_induct)
  case less
  note H' = head_ready_bounds [OF H]
  have len: "length targets = length (Sums head)" using T by (simp add: targets_ok_def)
  let ?find = "\<lambda>cached j. find_match md4 seed head targets (int (length C)) offset tg (Checksum1 p) cached j"
  let ?none = "\<lambda>j. \<forall>j'. j \<le> int j' \<and> j' < length targets \<and>
        (\<forall>m. j \<le> int m \<and> m \<le> j' \<longrightarrow> tag (targets ! m) = tg) \<longrightarrow>
        \<not> block_match md4 seed head (nat (index (targets ! j'))) p"
  show ?case
  proof (cases "j < sint (ChecksumCount head)")
    case False
    then have "?find cached j s = (Inr None, s)" by (subst find_match.simps) simp
    with False less.prems H' len show ?thesis by (auto simp: wrote_refl kept_def)
  next
    case True
    define tgt where "tgt = targets ! nat j"
    have jl: "nat j < length targets" using True H' len less.prems(3) by simp
    note tg3 = targets_okD [OF T jl, folded tgt_def]
    define sb where "sb = Sums head ! nat (index tgt)"
    have at: "target_at targets j = ret tgt" "Sums_at head (index tgt) = ret sb"
      using jl less.prems(3) tg3 by (auto simp: target_at_def Sums_at_def tgt_def sb_def nat_less_iff)
    show ?thesis
    proof (cases "tag tgt = tg")
      case False
      have "?find cached j s = (Inr None, s)"
        using True False by (subst find_match.simps) (simp add: at ebind_def)
      moreover have "?none j" using False less.prems(3) by (auto simp: tgt_def intro!: exI [of _ "nat j"])
      ultimately show ?thesis using less.prems by (auto simp: wrote_refl kept_def)
    next
      case tag: True
      have step: "?none j" if n: "?none (j + 1)" and "\<not> block_match md4 seed head (nat (index tgt)) p"
      proof (intro allI impI)
        fix j' assume j': "j \<le> int j' \<and> j' < length targets \<and>
            (\<forall>m. j \<le> int m \<and> m \<le> j' \<longrightarrow> tag (targets ! m) = tg)"
        show "\<not> block_match md4 seed head (nat (index (targets ! j'))) p"
        proof (cases "j = int j'")
          case True
          with that(2) show ?thesis by (auto simp: tgt_def)
        next
          case False
          with n j' show ?thesis by auto
        qed
      qed
      have rest: ?thesis
        if f: "?find cached j s = ?find cached' (j + 1) s'" and s': "wrote s [] s'" "kept C s s'"
          and cached': "cached' = None \<or> cached' = Some (Checksum2 md4 seed p)"
          and no: "\<not> block_match md4 seed head (nat (index tgt)) p" for cached' s'
      proof -
        have "nat (sint (ChecksumCount head) - (j + 1)) < nat (sint (ChecksumCount head) - j)"
          using True by simp
        from less.hyps [OF this, of s' cached'] obtain r t where
          "?find cached' (j + 1) s' = (Inr r, t)" "wrote s' [] t" "kept C s' t"
          "\<forall>i. r = Some i \<longrightarrow> 0 \<le> i \<and> block_match md4 seed head (nat i) p"
          "r = None \<longrightarrow> ?none (j + 1)"
          using s' cached' less.prems(3) wrote_room [OF s'(1)] by (auto simp: kept_def)
        with f step no s' show ?thesis
          by (intro exI [of _ r] exI [of _ t]) (auto intro: kept_trans wrote_none_trans)
      qed
      have lp: "int (length p) = block_at head (int (length C)) offset"
        unfolding p_def by (rule length_window_at [OF H off])
      show ?thesis
      proof (cases "Checksum1 p = Sum1 sb \<and> block_at head (int (length C)) offset = Len sb")
        case False
        then have "?find cached j s = ?find cached (j + 1) s"
          using True tag by (subst find_match.simps) (auto simp: at ebind_def Let_def)
        moreover have "\<not> block_match md4 seed head (nat (index tgt)) p"
          using False lp by (auto simp: block_match_def sb_def)
        ultimately show ?thesis
          using rest [of cached s] less.prems by (auto simp: wrote_refl kept_def)
      next
        case cand: True
        obtain s1 where s1: "(case cached of Some c \<Rightarrow> ret c
            | None \<Rightarrow> ebind (ms_ptr offset (to_int32 (block_at head (int (length C)) offset)))
                        (\<lambda>buf. ret (Checksum2 md4 seed buf))) s = (Inr (Checksum2 md4 seed p), s1)"
          "wrote s [] s1" "kept C s s1"
          using ms_ptr_window [OF H off less.prems(1,2)] less.prems
          by (cases cached) (auto simp: ebind_def p_def wrote_refl kept_def)
        have c2: "length (Checksum2 md4 seed p) = 16" by (simp add: Checksum2_def md4)
        have s2: "length (Sum2 sb) = 16" using head_ready_sums(3) [OF H tg3(2)] by (simp add: sb_def)
        let ?n = "nat (sint (ChecksumLength head))"
        have sl: "slice_upto (sint (ChecksumLength head)) (Checksum2 md4 seed p) =
              ret (take ?n (Checksum2 md4 seed p))"
          "slice_upto (sint (ChecksumLength head)) (Sum2 sb) = ret (take ?n (Sum2 sb))"
          using H' c2 s2 by (simp_all add: slice_upto_def)
        have bm: "block_match md4 seed head (nat (index tgt)) p \<longleftrightarrow>
            take ?n (Checksum2 md4 seed p) = take ?n (Sum2 sb)"
          using cand lp tg3 by (auto simp: block_match_def sb_def)
        have eq: "?find cached j s =
            (if take ?n (Checksum2 md4 seed p) \<noteq> take ?n (Sum2 sb)
             then ?find (Some (Checksum2 md4 seed p)) (j + 1) s1 else (Inr (Some (index tgt)), s1))"
          using True tag cand by (subst find_match.simps) (simp add: at ebind_def Let_def s1(1) [unfolded conjunct2 [OF cand]] sl)
        show ?thesis
        proof (cases "block_match md4 seed head (nat (index tgt)) p")
          case False
          with eq bm have "?find cached j s = ?find (Some (Checksum2 md4 seed p)) (j + 1) s1" by simp
          with rest s1 False show ?thesis by blast
        next
          case match: True
          with eq bm have "?find cached j s = (Inr (Some (index tgt)), s1)" by simp
          with match s1 tg3 show ?thesis by simp
        qed
      qed
    qed
  qed
qed

section \<open>Rolling the window\<close>

lemma window_roll:
  assumes H: "head_ready head" and off: "0 \<le> offset" "offset < int (length C)"
    and k: "k = block_at head (int (length C)) offset"
    and roll: "rolls s1 s2 (window_at head C offset)"
    and upd: "roll_update s1 s2 (nat k) (C ! nat offset)
      (if offset + k < int (length C) then Some (C ! nat (offset + k)) else None) = (t1, t2)"
  shows "rolls t1 t2 (window_at head C (offset + 1)) \<and>
    block_at head (int (length C)) (offset + 1) = (if offset + k < int (length C) then k else k - 1)"
proof -
  note H' = head_ready_bounds [OF H]
  let ?w = "sub (offset + 1) (k - 1) C"
  have k1: "1 \<le> k" "offset + k \<le> int (length C)" using H' off by (auto simp: k block_at_def)
  have lw: "nat k = Suc (length ?w)" using k1 off by (simp add: length_sub)
  have r: "rolls s1 s2 (C ! nat offset # ?w)"
    using roll sub_Cons [OF off k1(1)] by (simp add: window_at_def k)
  show ?thesis
  proof (cases "offset + k < int (length C)")
    case True
    then have b: "block_at head (int (length C)) (offset + 1) = k"
      using H' by (auto simp: k block_at_def split: if_splits)
    have "sub (offset + 1) ((k - 1) + 1) C = ?w @ [C ! nat (offset + k)]"
      using off k1 True by (subst sub_split) (simp_all add: sub_one)
    then have "window_at head C (offset + 1) = ?w @ [C ! nat (offset + k)]" by (simp add: window_at_def b)
    with roll_update_shift [OF r] upd True lw b show ?thesis by simp
  next
    case False
    then have b: "block_at head (int (length C)) (offset + 1) = k - 1"
      using H' off by (auto simp: k block_at_def split: if_splits)
    with roll_update_shrink [OF r] upd False lw show ?thesis by (simp add: window_at_def)
  qed
qed

section \<open>What has been sent so far\<close>

text \<open>
  From \<open>s0\<close> to \<open>s\<close> the search has sent tokens that spell the file up to \<open>lastMatch\<close>, and the hash
  has taken in the same bytes.
\<close>

definition spelt :: "(bytes \<Rightarrow> bytes) \<Rightarrow> i32 \<Rightarrow> SumHead \<Rightarrow> bytes \<Rightarrow> search \<Rightarrow> search \<Rightarrow> bool" where
  "spelt md4 seed head C s0 s \<longleftrightarrow>
     ms_total C (smap s) \<and> 0 \<le> lastMatch s \<and> hsum s = hsum s0 @ sub 0 (lastMatch s) C \<and>
     (\<exists>ts. wrote s0 (enc_tokens ts) s \<and> spelled md4 seed head ts (sub 0 (lastMatch s) C))"

lemma spelt_room: "spelt md4 seed head C s0 s \<Longrightarrow> room s = None"
  by (auto simp: spelt_def wrote_def)

lemma spelt_kept:
  assumes "spelt md4 seed head C s0 s" and "wrote s [] t" and "kept C s t"
  shows "spelt md4 seed head C s0 t"
  using assms wrote_trans [OF _ assms(2)] by (fastforce simp: spelt_def kept_def)

lemma spelt_extend:
  assumes s: "spelt md4 seed head C s0 s" and le: "lastMatch s \<le> lastMatch t"
    and "wrote s (enc_tokens ts) t" and "ms_total C (smap t)"
    and "hsum t = hsum s @ sub (lastMatch s) (lastMatch t - lastMatch s) C"
    and "spelled md4 seed head ts (sub (lastMatch s) (lastMatch t - lastMatch s) C)"
  shows "spelt md4 seed head C s0 t"
proof -
  have "sub 0 (lastMatch t) C = sub 0 (lastMatch s) C @ sub (lastMatch s) (lastMatch t - lastMatch s) C"
    using sub_split [of 0 "lastMatch s" "lastMatch t - lastMatch s" C] s le by (simp add: spelt_def)
  moreover from s obtain us where
    "wrote s0 (enc_tokens us) s" "spelled md4 seed head us (sub 0 (lastMatch s) C)"
    by (auto simp: spelt_def)
  ultimately show ?thesis
    using assms wrote_trans [of s0 "enc_tokens us" s "enc_tokens ts" t] spelled_append
    unfolding spelt_def by (smt (verit) append.assoc enc_tokens_simps(3))
qed

lemma spelt_literal:
  assumes s: "spelt md4 seed head C s0 s" and "lastMatch s \<le> offset" and "offset \<le> int (length C)"
  shows "\<exists>t. matched head offset (-2) s = (Inr (), t) \<and> spelt md4 seed head C s0 t \<and> lastMatch t = offset"
proof -
  have "ms_total C (smap s)" "0 \<le> lastMatch s" using s by (auto simp: spelt_def)
  from matched_literal [OF this(1) spelt_room [OF s] this(2) assms(2,3), of "-2" head md4 seed]
  obtain ts t where t: "matched head offset (-2) s = (Inr (), t)" "wrote s (enc_tokens ts) t"
    "lastMatch t = offset" "ms_total C (smap t)"
    "hsum t = hsum s @ sub (lastMatch s) (offset - lastMatch s) C"
    "spelled md4 seed head ts (sub (lastMatch s) (offset - lastMatch s) C)" by auto
  then have "spelt md4 seed head C s0 t" using assms(2) by (intro spelt_extend [OF s]) auto
  with t show ?thesis by blast
qed

lemma spelt_block:
  assumes s: "spelt md4 seed head C s0 s" and "lastMatch s \<le> offset" and "0 \<le> i"
    and H: "head_ready head" and "offset + Len (Sums head ! nat i) \<le> int (length C)"
    and m: "block_match md4 seed head (nat i) (sub offset (Len (Sums head ! nat i)) C)"
  shows "\<exists>t. matched head offset i s = (Inr (), t) \<and> spelt md4 seed head C s0 t \<and>
    lastMatch t = offset + Len (Sums head ! nat i)"
proof -
  let ?L = "Len (Sums head ! nat i)"
  have i: "nat i < length (Sums head)" using m by (simp add: block_match_def)
  have L: "1 \<le> ?L" by (rule head_ready_sums(1) [OF H i])
  have "ms_total C (smap s)" "0 \<le> lastMatch s" using s by (auto simp: spelt_def)
  from matched_block [OF this(1) spelt_room [OF s] this(2) assms(2) i _ refl assms(5) m] L assms(3)
  obtain ts t where t: "matched head offset i s = (Inr (), t)" "wrote s (enc_tokens ts) t"
    "lastMatch t = offset + ?L" "ms_total C (smap t)"
    "hsum t = hsum s @ sub (lastMatch s) (offset + ?L - lastMatch s) C"
    "spelled md4 seed head ts (sub (lastMatch s) (offset + ?L - lastMatch s) C)" by auto
  then have "spelt md4 seed head C s0 t" using assms(2) L by (intro spelt_extend [OF s]) auto
  with t show ?thesis by blast
qed

section \<open>One round\<close>

text \<open>
  The flush keeps the bytes that have piled up within a block and two chunks, so that the length
  of the window a round asks for stays an \<open>int32\<close> for files of any size.
\<close>

definition backlog_ok :: "SumHead \<Rightarrow> int \<Rightarrow> int \<Rightarrow> int \<Rightarrow> bool" where
  "backlog_ok head end_off offset lm \<longleftrightarrow>
     offset - lm \<le> sint (BlockLength head) + chunkSize + max 0 (chunkSize - max 0 (end_off - offset))"

fun search_inv ::
  "(bytes \<Rightarrow> bytes) \<Rightarrow> i32 \<Rightarrow> SumHead \<Rightarrow> bytes \<Rightarrow> int \<Rightarrow> search \<Rightarrow> int \<times> int \<times> u32 \<times> u32 \<Rightarrow> search \<Rightarrow> bool" where
  "search_inv md4 seed head C end_off s0 (offset, k, s1, s2) s \<longleftrightarrow>
     spelt md4 seed head C s0 s \<and> 0 \<le> offset \<and> offset < int (length C) \<and> lastMatch s \<le> offset \<and>
     k = block_at head (int (length C)) offset \<and> rolls s1 s2 (window_at head C offset) \<and>
     backlog_ok head end_off offset (lastMatch s)"

lemma update_bytes:
  assumes H: "head_ready head" and sp: "spelt md4 seed head C s0 s"
    and off: "0 \<le> offset" "offset < int (length C)" and "lastMatch s \<le> offset + 1"
    and b: "backlog_ok head end_off offset (lastMatch s)"
  defines "k \<equiv> block_at head (int (length C)) offset" and "backup \<equiv> max (offset - lastMatch s) 0"
  defines "n \<equiv> k + (if offset + k < int (length C) then 1 else 0) + backup"
  shows "\<exists>u t. ms_ptr (offset - backup) (to_int32 n) s = (Inr u, t) \<and> wrote s [] t \<and> kept C s t \<and>
    backup \<le> int (length u) \<and>
    byte_at (drop (nat backup) u) 0 = (ret (C ! nat offset) :: (search, byte) io) \<and>
    (offset + k < int (length C) \<longrightarrow> 
       byte_at (drop (nat backup) u) k = (ret (C ! nat (offset + k)) :: (search, byte) io))"
proof -
  let ?m = "k + (if offset + k < int (length C) then 1 else 0)"
  note H' = head_ready_bounds [OF H]
  have lm: "0 \<le> lastMatch s" "ms_total C (smap s)" using sp by (auto simp: spelt_def)
  have k: "1 \<le> k" "k \<le> sint (BlockLength head)" "offset + k \<le> int (length C)"
    using H' off by (auto simp: k_def block_at_def)
  have bk: "0 \<le> backup" "0 \<le> offset - backup" "backup \<le> sint (BlockLength head) + 2 * chunkSize"
    using lm(1) off b H' by (auto simp: backup_def backlog_ok_def chunkSize_def split: if_splits)
  have n: "0 \<le> n" "n < 2 ^ 31" "offset - backup + n \<le> int (length C)"
    using k bk H' by (auto simp: n_def chunkSize_def)
  have id: "to_int32 n = n" using n by (intro to_int32_id) auto
  obtain t where t: "ms_ptr (offset - backup) n s = (Inr (sub (offset - backup) n C), t)"
    "wrote s [] t" "kept C s t"
    using ms_ptr_total [OF lm(2) spelt_room [OF sp] bk(2) n(1,3)] by blast
  let ?u = "sub (offset - backup) n C"
  have "n = backup + ?m" by (simp add: n_def)
  then have dr: "drop (nat backup) ?u = sub offset ?m C"
    using drop_sub [of "offset - backup" backup ?m C] bk n(3) k by (simp split: if_splits)
  have "backup \<le> int (length ?u)" using n bk k by (simp add: length_sub n_def split: if_splits)
  moreover have "int (length (sub offset ?m C)) = ?m"
    using off k by (subst length_sub) (auto split: if_splits)
  then have "byte_at (sub offset ?m C) 0 = ret (C ! nat offset)"
    and "offset + k < int (length C) \<Longrightarrow> byte_at (sub offset ?m C) k = ret (C ! nat (offset + k))"
    using nth_sub [of offset 0 ?m C] nth_sub [of offset k ?m C] off k by (auto simp: byte_at_def)
  ultimately show ?thesis using t id dr by auto
qed

text \<open>The flush: \<open>spelt\<close> survives, and the backlog is in bounds for the next offset.\<close>

lemma flush_ok:
  assumes H: "head_ready head" and sp: "spelt md4 seed head C s0 s"
    and off: "0 \<le> offset" "offset < int (length C)" and lm: "lastMatch s \<le> offset + 1"
    and b: "backlog_ok head end_off offset (lastMatch s)"
  defines "backup \<equiv> max (offset - lastMatch s) 0"
  shows "\<exists>t. (if backup \<ge> sint (BlockLength head) + chunkSize \<and> end_off - offset > chunkSize
             then matched head (offset - sint (BlockLength head)) (-2) else ret ()) s = (Inr (), t) \<and>
    spelt md4 seed head C s0 t \<and> lastMatch t \<le> offset + 1 \<and>
    (offset + 1 < end_off \<longrightarrow> backlog_ok head end_off (offset + 1) (lastMatch t))"
proof (cases "backup \<ge> sint (BlockLength head) + chunkSize \<and> end_off - offset > chunkSize")
  case True
  note H' = head_ready_bounds [OF H]
  have "lastMatch s \<le> offset - sint (BlockLength head)"
    using True H' chunkSize_pos by (auto simp: backup_def max_def split: if_splits)
  from spelt_literal [OF sp this] off H' obtain t where
    "matched head (offset - sint (BlockLength head)) (-2) s = (Inr (), t)"
    "spelt md4 seed head C s0 t" "lastMatch t = offset - sint (BlockLength head)" by auto
  with True H' chunkSize_pos show ?thesis by (auto simp: backlog_ok_def)
next
  case False
  then have "offset + 1 < end_off \<longrightarrow> backlog_ok head end_off (offset + 1) (lastMatch s)"
    using b head_ready_bounds(2) [OF H] chunkSize_pos by (auto simp: backlog_ok_def backup_def)
  with False sp lm show ?thesis by auto
qed

lemma roll_step_eq:
  assumes b: "backup = max (offset - lastMatch s) 0" and m: "mr = (offset + k < fsize)"
    and u: "ms_ptr (offset - backup) (to_int32 (k + (if mr then 1 else 0) + backup)) s = (Inr u, s')"
    and "backup \<le> int (length u)" and "byte_at (drop (nat backup) u) 0 = (ret old :: (search, byte) io)"
    and "mr \<longrightarrow> byte_at (drop (nat backup) u) k = (ret new :: (search, byte) io)"
    and "roll_update s1 s2 (nat k) old (if mr then Some new else None) = (t1, t2)"
    and f: "f = (if backup \<ge> sint (BlockLength head) + chunkSize \<and> end_off - offset > chunkSize
      then matched head (offset - sint (BlockLength head)) (-2) else ret ())"
    and "f s' = (Inr (), t)"
  shows "roll_step head fsize end_off (offset, k, s1, s2) s =
    (Inr (if offset + 1 \<ge> end_off then None else Some (offset + 1, (if mr then k else k - 1), t1, t2)), t)"
  unfolding roll_step_def Let_def prod.case b [symmetric] m [symmetric] f [symmetric]
  using u assms(4-7,9) by (cases mr) (simp_all add: ebind_Inr)

lemma roll_step_ok:
  assumes H: "head_ready head" and sp: "spelt md4 seed head C s0 s"
    and off: "0 \<le> offset" "offset < int (length C)" and lm: "lastMatch s \<le> offset + 1"
    and k: "k = block_at head (int (length C)) offset" and roll: "rolls s1 s2 (window_at head C offset)"
    and b: "backlog_ok head end_off offset (lastMatch s)" and e: "end_off \<le> int (length C)"
  shows "\<exists>r t. roll_step head (int (length C)) end_off (offset, k, s1, s2) s = (Inr r, t) \<and>
    spelt md4 seed head C s0 t \<and> lastMatch t \<le> offset + 1 \<and>
    (\<forall>v. r = Some v \<longrightarrow> fst v = offset + 1 \<and> search_inv md4 seed head C end_off s0 v t)"
proof -
  let ?b = "max (offset - lastMatch s) 0" and ?more = "offset + k < int (length C)"
  let ?new = "if ?more then Some (C ! nat (offset + k)) else None"
  obtain u s' where u: "ms_ptr (offset - ?b) (to_int32 (k + (if ?more then 1 else 0) + ?b)) s = (Inr u, s')"
    "wrote s [] s'" "kept C s s'" "?b \<le> int (length u)" "byte_at (drop (nat ?b) u) 0 = (ret (C ! nat offset) :: (search, byte) io)"
    "?more \<longrightarrow> byte_at (drop (nat ?b) u) k = (ret (C ! nat (offset + k)) :: (search, byte) io)"
    using update_bytes [OF H sp off lm b] unfolding k by blast
  have s': "spelt md4 seed head C s0 s'" "lastMatch s' = lastMatch s"
    using spelt_kept [OF sp u(2,3)] u(3) by (auto simp: kept_def)
  obtain t1 t2 where t12: "roll_update s1 s2 (nat k) (C ! nat offset) ?new = (t1, t2)" by fastforce
  note wr = window_roll [OF H off k roll t12]
  obtain t where t: "(if ?b \<ge> sint (BlockLength head) + chunkSize \<and> end_off - offset > chunkSize
      then matched head (offset - sint (BlockLength head)) (-2) else ret ()) s' = (Inr (), t)"
    "spelt md4 seed head C s0 t" "lastMatch t \<le> offset + 1"
    "offset + 1 < end_off \<longrightarrow> backlog_ok head end_off (offset + 1) (lastMatch t)"
    using flush_ok [OF H s'(1) off, of end_off] lm b s'(2) by auto
  have "roll_step head (int (length C)) end_off (offset, k, s1, s2) s =
      (Inr (if offset + 1 \<ge> end_off then None
            else Some (offset + 1, (if ?more then k else k - 1), t1, t2)), t)"
    using u(4,5,6) t12 by (intro roll_step_eq [OF refl refl u(1) _ _ _ _ refl t(1)]) auto
  moreover have "search_inv md4 seed head C end_off s0 (offset + 1, (if ?more then k else k - 1), t1, t2) t"
    if "offset + 1 < end_off" using that t wr off e by auto
  ultimately show ?thesis using t(2,3) by (auto simp: not_le)
qed

section \<open>Looking a window up\<close>

text \<open>
  The table and the candidate loop together: the result is a block that matches the window, and
  none only when no block of the signature does.
\<close>

lemma lookup_correct:
  assumes T: "targets_ok head targets" and H: "head_ready head"
    and md4: "\<forall>x. length (md4 x) = 16" and off: "0 \<le> offset" "offset \<le> int (length C)"
    and p: "p = window_at head C offset" and "ms_total C (smap s)" and "room s = None"
  shows "\<exists>r t. (case build_tagTable targets (Tag (Checksum1 p)) of
        None \<Rightarrow> ret None
      | Some j \<Rightarrow> find_match md4 seed head targets (int (length C)) offset (Tag (Checksum1 p))
                    (Checksum1 p) None j) s = (Inr r, t) \<and>
    wrote s [] t \<and> kept C s t \<and>
    (\<forall>i. r = Some i \<longrightarrow> 0 \<le> i \<and> block_match md4 seed head (nat i) p) \<and>
    (r = None \<longrightarrow> (\<forall>i. \<not> block_match md4 seed head i p))"
proof (cases "build_tagTable targets (Tag (Checksum1 p))")
  case None
  have "\<not> block_match md4 seed head i p" for i
    using targets_ok_reach [OF T, of i] None by (auto simp: block_match_def)
  with None assms show ?thesis by (auto simp: wrote_refl kept_def)
next
  case (Some z)
  then have "0 \<le> z" by (simp add: build_tagTable_Some)
  from find_match_correct [OF T H md4 off assms(7,8) this, of None seed "Tag (Checksum1 p)"] p
  obtain r t where rt: "find_match md4 seed head targets (int (length C)) offset (Tag (Checksum1 p))
      (Checksum1 p) None z s = (Inr r, t)" "wrote s [] t" "kept C s t"
    "\<forall>i. r = Some i \<longrightarrow> 0 \<le> i \<and> block_match md4 seed head (nat i) p"
    "r = None \<longrightarrow> (\<forall>j'. z \<le> int j' \<and> j' < length targets \<and>
        (\<forall>m. z \<le> int m \<and> m \<le> j' \<longrightarrow> tag (targets ! m) = Tag (Checksum1 p)) \<longrightarrow>
        \<not> block_match md4 seed head (nat (index (targets ! j'))) p)" by blast
  have "\<not> block_match md4 seed head i p" if none: "r = None" for i
  proof
    assume m: "block_match md4 seed head i p"
    then have i: "i < length (Sums head)" "Sum1 (Sums head ! i) = Checksum1 p"
      by (auto simp: block_match_def)
    from targets_ok_reach [OF T i(1)] Some obtain j' where "z \<le> int j'" "j' < length targets"
      "index (targets ! j') = int i" "\<forall>m. z \<le> int m \<and> m \<le> j' \<longrightarrow> tag (targets ! m) = Tag (Checksum1 p)"
      unfolding i(2) by fastforce
    then have "\<not> block_match md4 seed head (nat (int i)) p" using rt(5) none by metis
    with m show False by simp
  qed
  with Some rt show ?thesis by auto
qed

section \<open>The search\<close>

lemma readChunk_ok:
  assumes "head_ready head" and "0 \<le> offset" and "offset \<le> int (length C)"
    and "ms_total C (smap s)" and "room s = None"
  shows "\<exists>s1 s2 t. readChunk head (int (length C)) offset s =
      (Inr (block_at head (int (length C)) offset, s1, s2), t) \<and> wrote s [] t \<and> kept C s t \<and>
    rolls s1 s2 (window_at head C offset)"
  using ms_ptr_window [OF assms] rolls_Checksum1
  by (fastforce simp: readChunk_def Let_def ebind_def)

lemma hs_step_ok:
  assumes T: "targets_ok head targets" and H: "head_ready head" and md4: "\<forall>x. length (md4 x) = 16"
    and e: "end_off \<le> int (length C)" and inv: "search_inv md4 seed head C end_off s0 v s"
  shows "\<exists>r t. hs_step md4 seed head targets (build_tagTable targets) (int (length C)) end_off v s = (Inr r, t) \<and>
    spelt md4 seed head C s0 t \<and> lastMatch t \<le> int (length C) \<and>
    (\<forall>v'. r = Some v' \<longrightarrow> fst v < fst v' \<and> search_inv md4 seed head C end_off s0 v' t)"
proof -
  obtain offset k s1 s2 where v: "v = (offset, k, s1, s2)" by (cases v) auto
  let ?p = "window_at head C offset"
  have i: "spelt md4 seed head C s0 s" "0 \<le> offset" "offset < int (length C)" "lastMatch s \<le> offset"
    "k = block_at head (int (length C)) offset" "rolls s1 s2 ?p" "backlog_ok head end_off offset (lastMatch s)"
    using inv by (auto simp: v)
  have tot: "ms_total C (smap s)" using i(1) by (simp add: spelt_def)
  obtain r s' where r: "(case build_tagTable targets (Tag (Checksum1 ?p)) of
        None \<Rightarrow> ret None
      | Some j \<Rightarrow> find_match md4 seed head targets (int (length C)) offset (Tag (Checksum1 ?p))
                    (Checksum1 ?p) None j) s = (Inr r, s')" "wrote s [] s'" "kept C s s'"
    "\<forall>i. r = Some i \<longrightarrow> 0 \<le> i \<and> block_match md4 seed head (nat i) ?p"
    using lookup_correct [OF T H md4 i(2) less_imp_le [OF i(3)] refl tot spelt_room [OF i(1)]] by blast
  have s': "spelt md4 seed head C s0 s'" "lastMatch s' = lastMatch s"
    using spelt_kept [OF i(1) r(2,3)] r(3) by (auto simp: kept_def)
  note step = hs_step_def [of md4 seed head targets "build_tagTable targets" "int (length C)" end_off v,
      unfolded v prod.case Let_def rolls_tag [OF i(6)] rolls_sum [OF i(6)], folded v]
  show ?thesis
  proof (cases r)
    case None
    have lm: "lastMatch s' \<le> offset + 1" "backlog_ok head end_off offset (lastMatch s')"
      using i(4,7) s'(2) by simp_all
    obtain r' t where
      "roll_step head (int (length C)) end_off v s' = (Inr r', t)" "spelt md4 seed head C s0 t"
      "lastMatch t \<le> offset + 1"
      "\<forall>v'. r' = Some v' \<longrightarrow> fst v' = offset + 1 \<and> search_inv md4 seed head C end_off s0 v' t"
      using roll_step_ok [OF H s'(1) i(2,3) lm(1) i(5,6) lm(2) e] unfolding v by blast
    moreover have "hs_step md4 seed head targets (build_tagTable targets) (int (length C)) end_off v s =
        roll_step head (int (length C)) end_off v s'"
      using None r(1) by (simp add: step ebind_Inr)
    ultimately show ?thesis using i(3) by (auto simp: v)
  next
    case (Some b)
    define L where "L = Len (Sums head ! nat b)"
    have b: "0 \<le> b" "nat b < length (Sums head)" "int (length ?p) = L"
      "block_match md4 seed head (nat b) ?p"
      using r(4) Some by (auto simp: block_match_def L_def)
    have kL: "k = L" using b(3) length_window_at [OF H i(2)] i(3,5) by simp
    have L: "1 \<le> L" "offset + L \<le> int (length C)"
      using head_ready_sums(1) [OF H b(2)] block_at_bounds(2) [OF H i(2)] i(3,5) kL by (auto simp: L_def)
    have p: "?p = sub offset L C" using kL i(5) by (simp add: window_at_def)
    obtain t1 where t1: "matched head offset b s' = (Inr (), t1)" "spelt md4 seed head C s0 t1"
      "lastMatch t1 = offset + L"
      using spelt_block [OF s'(1) _ b(1) H] i(4) s'(2) L(2) b(4) by (auto simp: L_def p)
    define o' where "o' = offset + (L - 1)"
    have o': "0 \<le> o'" "o' < int (length C)" "lastMatch t1 \<le> o' + 1" "offset \<le> o'"
      using i(2) L t1(3) by (auto simp: o'_def)
    obtain a1 a2 t2 where t2: "readChunk head (int (length C)) o' t1 =
        (Inr (block_at head (int (length C)) o', a1, a2), t2)" "wrote t1 [] t2" "kept C t1 t2"
      "rolls a1 a2 (window_at head C o')"
      using readChunk_ok [OF H o'(1) less_imp_le [OF o'(2)] _ spelt_room [OF t1(2)]] t1(2)
      by (auto simp: spelt_def)
    have sp2: "spelt md4 seed head C s0 t2" "lastMatch t2 = o' + 1"
      using spelt_kept [OF t1(2) t2(2,3)] t2(3) t1(3) by (auto simp: kept_def o'_def)
    have at: "Sums_at head b = ret (Sums head ! nat b)" using b by (auto simp: Sums_at_def nat_less_iff)
    have eq: "hs_step md4 seed head targets (build_tagTable targets) (int (length C)) end_off v s =
        (if o' \<ge> end_off then (Inr None, t2)
         else roll_step head (int (length C)) end_off (o', block_at head (int (length C)) o', a1, a2) t2)"
      using r(1) Some t1(1) t2(1) by (simp add: step ebind_Inr at o'_def L_def)
    have bl: "backlog_ok head end_off o' (lastMatch t2)"
      using sp2(2) head_ready_bounds(2) [OF H] chunkSize_pos by (simp add: backlog_ok_def)
    show ?thesis
    proof (cases "o' \<ge> end_off")
      case True
      with eq sp2 o'(2) show ?thesis by auto
    next
      case False
      with eq roll_step_ok [OF H sp2(1) o'(1,2) _ refl t2(4) bl e] sp2(2) o'(2,4) v
      show ?thesis by fastforce
    qed
  qed
qed

lemma hs_loop_ok:
  assumes T: "targets_ok head targets" and H: "head_ready head" and md4: "\<forall>x. length (md4 x) = 16"
    and e: "end_off \<le> int (length C)"
  shows "search_inv md4 seed head C end_off s0 v s \<Longrightarrow> int (length C) < int fuel + fst v \<Longrightarrow>
    \<exists>t. hs_loop md4 seed head targets (build_tagTable targets) (int (length C)) end_off fuel v s =
          Some (Inr (), t) \<and> spelt md4 seed head C s0 t \<and> lastMatch t \<le> int (length C)"
proof (induction fuel arbitrary: v s)
  case 0
  then show ?case by (cases v) auto
next
  case (Suc fuel)
  obtain r t where rt: "hs_step md4 seed head targets (build_tagTable targets) (int (length C)) end_off v s = (Inr r, t)"
    "spelt md4 seed head C s0 t" "lastMatch t \<le> int (length C)"
    "\<forall>v'. r = Some v' \<longrightarrow> fst v < fst v' \<and> search_inv md4 seed head C end_off s0 v' t"
    using hs_step_ok [OF T H md4 e Suc.prems(1)] by blast
  show ?case
  proof (cases r)
    case None
    with rt show ?thesis by (simp add: lift_def)
  next
    case (Some v')
    with rt(4) Suc.prems(2) Suc.IH [of v' t] rt(1) show ?thesis by simp
  qed
qed

section \<open>The whole search\<close>

lemma within_search_wrote:
  assumes "prog (transfer.extend t (search.fields h m)) = Some (r, s)"
    and "wrote (transfer.extend t (search.fields h m)) p s"
  shows "within_search h m prog t = Some (r, transfer.truncate s) \<and> wrote t p (transfer.truncate s)"
  using assms by (simp add: within_search_def wrote_def sent_def transfer.defs search.defs)

lemma mapFile_window:
  assumes "1 \<le> sint (B :: i32)" and "sint B \<le> 2 ^ 29"
  shows "max (3 * sint B) 262144 \<le> defWindowSize (mapFile f n (max (sint (3 * B)) (256 * 1024)) (sint B))"
proof -
  let ?b = "sint B"
  have three: "sint (3 * B) = 3 * ?b"
    using sint_word_of_int32 [of "3 * ?b"] assms by simp
  define r where "r = max (3 * ?b) 262144"
  define r' where "r' = (if r mod ?b \<noteq> 0 then to_int32 (r + (?b - r mod ?b)) else r)"
  have "r \<le> r'"
  proof (cases "r mod ?b = 0")
    case False
    then have "r = 262144" "?b < 2 ^ 20" by (auto simp: r_def max_def split: if_splits)
    moreover have "0 \<le> r mod ?b" "r mod ?b < ?b" using assms(1) by auto
    ultimately show ?thesis using False to_int32_id [of "r + (?b - r mod ?b)"] by (simp add: r'_def)
  qed (simp add: r'_def)
  also have "r' \<le> alignedLength r'" using alignedLength_bounds by blast
  also have "alignedLength r' = defWindowSize (mapFile f n (max (sint (3 * B)) (256 * 1024)) ?b)"
    using assms(1) by (simp add: mapFile_def Let_def three r_def r'_def)
  finally show ?thesis by (simp only: r_def)
qed

lemma ms_total_mapFile:
  assumes "head_ready head" and "content f = C" and "\<not> is_dir f" and "fpos f = 0"
    and "int (length C) mod 1024 = 0 \<or> int (length C) \<le> max (3 * sint (BlockLength head)) 262144"
  shows "ms_total C (mapFile f (int (length C)) (max (sint (3 * BlockLength head)) (256 * 1024))
           (sint (BlockLength head)))"
proof -
  note w = mapFile_window [OF head_ready_bounds(2,3) [OF assms(1)], of f "int (length C)"]
  then show ?thesis
    using ms_ok_mapFile [OF assms(2-4)] assms(5) unfolding ms_total_def by fastforce
qed

lemma hs_body_stream:
  assumes T: "targets_ok head targets" and H: "head_ready head" and md4: "\<forall>x. length (md4 x) = 16"
    and C: "C \<noteq> []" and s: "ms_total C (smap s)" "room s = None" "lastMatch s = 0"
    and fuel: "length C < fuel"
  shows "\<exists>ts t. hs_body md4 seed head targets (build_tagTable targets) (int (length C)) fuel s = Some (Inr (), t) \<and>
    wrote s (enc_tokens ts @ enc_end @ md4 (hsum s @ C)) t \<and> spelled md4 seed head ts C"
proof -
  let ?n = "length (Sums head) - 1"
  define sb where "sb = Sums head ! ?n"
  define e where "e = int (length C) + 1 - Len sb"
  have n: "?n < length (Sums head)" "0 < length (Sums head)" using H by (auto simp: head_ready_def)
  have e: "e \<le> int (length C)" using head_ready_sums(1) [OF H n(1)] by (simp add: e_def sb_def)
  have "nat (int (length (Sums head)) - 1) = ?n" by simp
  then have last: "last_sum head = ret sb" using n by (simp add: last_sum_def Sums_at_def sb_def)
  have sp: "spelt md4 seed head C s s"
    using s by (auto simp: spelt_def wrote_refl intro!: exI [of _ "[]"])
  obtain s1 s2 t1 where t1: "readChunk head (int (length C)) 0 s =
      (Inr (block_at head (int (length C)) 0, s1, s2), t1)" "wrote s [] t1" "kept C s t1"
    "rolls s1 s2 (window_at head C 0)"
    using readChunk_ok [OF H _ _ s(1,2), of 0] by auto
  have inv: "search_inv md4 seed head C e s (0, block_at head (int (length C)) 0, s1, s2) t1"
    using C spelt_kept [OF sp t1(2,3)] t1(3,4) s(3) head_ready_bounds(2) [OF H] chunkSize_pos
    by (simp add: kept_def backlog_ok_def)
  obtain t2 where t2: "hs_loop md4 seed head targets (build_tagTable targets) (int (length C)) e fuel
      (0, block_at head (int (length C)) 0, s1, s2) t1 = Some (Inr (), t2)"
    "spelt md4 seed head C s t2" "lastMatch t2 \<le> int (length C)"
    using hs_loop_ok [OF T H md4 e inv, of fuel] fuel by auto
  obtain us where us: "wrote s (enc_tokens us) t2" "spelled md4 seed head us (sub 0 (lastMatch t2) C)"
    and h2: "hsum t2 = hsum s @ sub 0 (lastMatch t2) C" "0 \<le> lastMatch t2" "ms_total C (smap t2)"
    using t2(2) by (auto simp: spelt_def)
  obtain vs t3 where t3: "matched head (int (length C)) (-1) t2 = (Inr (), t3)"
    "wrote t2 (enc_tokens vs @ enc_end) t3"
    "hsum t3 = hsum t2 @ sub (lastMatch t2) (int (length C) - lastMatch t2) C"
    "spelled md4 seed head vs (sub (lastMatch t2) (int (length C) - lastMatch t2) C)"
    using matched_literal [OF h2(3) wrote_room [OF us(1)] h2(2) t2(3) order_refl, of "-1" head md4 seed]
    by (auto simp: enc_end_def)
  have C': "C = sub 0 (lastMatch t2) C @ sub (lastMatch t2) (int (length C) - lastMatch t2) C"
    using sub_split [of 0 "lastMatch t2" "int (length C) - lastMatch t2" C] h2(2) t2(3) by (simp add: sub_all)
  have h3: "hsum t3 = hsum s @ C" using t3(3) h2(1) C' by simp
  note w = wrote_conn_Write [OF wrote_trans [OF us(1) t3(2)], of "md4 (hsum s @ C)"]
  have "hs_body md4 seed head targets (build_tagTable targets) (int (length C)) fuel s =
      Some (Inr (), emit (md4 (hsum s @ C)) t3)"
    using t1(1) t2(1) t3(1) w h3
    by (simp add: hs_body_def last lift_def rbind_def e_def [symmetric])
  moreover have "spelled md4 seed head (us @ vs) C"
    using spelled_append [OF us(2) t3(4)] C' by simp
  ultimately show ?thesis using w by (intro exI [of _ "us @ vs"]) auto
qed

lemma hashSearch_sends:
  assumes T: "targets_ok head targets" and H: "head_ready head" and md4: "\<forall>x. length (md4 x) = 16"
    and op: "osopen (Path fl) = Inr (f, int (length C))"
    and f: "content f = C" "\<not> is_dir f" "fpos f = 0"
    and del: "int (length C) mod 1024 = 0 \<or> int (length C) \<le> max (3 * sint (BlockLength head)) 262144"
    and C: "C \<noteq> []" and c: "room c = None" "lastMatch c = 0" and fuel: "length C < fuel"
  shows "\<exists>ts d. hashSearch md4 seed osopen fuel targets (build_tagTable targets) head fileIndex fl c =
      Some (Inr (), d) \<and>
    wrote c (le_enc 4 fileIndex @ enc_head head @ enc_tokens ts @ enc_end @ md4 (le_enc 4 seed @ C)) d \<and>
    spelled md4 seed head ts C"
proof -
  let ?ms = "mapFile f (int (length C)) (max (sint (3 * BlockLength head)) (256 * 1024)) (sint (BlockLength head))"
  let ?c = "emit (enc_head head) (emit (le_enc 4 fileIndex) c)"
  let ?s = "transfer.extend ?c (search.fields (le_enc 4 seed) ?ms)"
  have wc: "wrote c (le_enc 4 fileIndex @ enc_head head) ?c" using c(1) by (simp add: wrote_def)
  have s: "ms_total C (smap ?s)" "room ?s = None" "lastMatch ?s = 0" "hsum ?s = le_enc 4 seed"
    using ms_total_mapFile [OF H f del] c by (simp_all add: transfer.defs search.defs emit_def)
  obtain ts t where t: "hs_body md4 seed head targets (build_tagTable targets) (int (length C)) fuel ?s = Some (Inr (), t)"
    "wrote ?s (enc_tokens ts @ enc_end @ md4 (le_enc 4 seed @ C)) t" "spelled md4 seed head ts C"
    using hs_body_stream [OF T H md4 C s(1-3) fuel, of seed] s(4) by auto
  note w = within_search_wrote [where prog = "hs_body md4 seed head targets (build_tagTable targets) (int (length C)) fuel",
      OF t(1,2)]
  have "hashSearch md4 seed osopen fuel targets (build_tagTable targets) head fileIndex fl c =
      Some (Inr (), transfer.truncate t)"
    using op w c(1) by (simp add: hashSearch_def Let_def WriteTo_def WriteInt32_ok WriteString_ok)
  moreover have "wrote c (le_enc 4 fileIndex @ enc_head head @ enc_tokens ts @ enc_end @ md4 (le_enc 4 seed @ C))
      (transfer.truncate t)"
    using wrote_trans [OF wc conjunct2 [OF w]] by simp
  ultimately show ?thesis using t(3) by blast
qed

end
