(* ===== verification/Multiplex.thy ===== *)
theory Multiplex
  imports Wire "HOL-Library.Sublist"
begin

text \<open>
  rsyncwire/wire.go: the multiplexing codec (\<open>MultiplexWriter\<close>, \<open>MultiplexReader\<close>), the
  counting wrappers (\<open>CountingReader\<close>, \<open>CountingWriter\<close>, \<open>CounterPair\<close>), and Go's
  \<open>io.Writer\<close> and \<open>io.Reader\<close> as the interfaces they are stacked on.  A client of the
  interface is verified once, inside the locale; every layer of the stack interprets it.
\<close>

section \<open>Message tags and frames\<close>

definition MsgData :: byte where "MsgData = 0"
definition MsgInfo :: byte where "MsgInfo = 2"
definition MsgError :: byte where "MsgError = 1"
definition mplexBase :: byte where "mplexBase = 7"

definition ioBufferSize :: u32 where "ioBufferSize = 256 * 1024"
definition maxMessageSize :: u32 where "maxMessageSize = ioBufferSize"

lemmas msg_defs = MsgData_def MsgInfo_def MsgError_def mplexBase_def

text \<open>\<open>uint32(mplexBase+tag)<<24 | uint32(len(p))\<close>: the sum is a \<open>uint8\<close>, the length is not masked.\<close>

definition mplex_header :: "byte \<Rightarrow> bytes \<Rightarrow> u32" where
  "mplex_header tag p = push_bit 24 (ucast (mplexBase + tag)) OR word_of_nat (length p)"

definition frame :: "byte \<Rightarrow> bytes \<Rightarrow> bytes" where
  "frame tag p = le_enc 4 (mplex_header tag p) @ p"

definition MultiplexWriter_WriteMsg ::
  "('w \<Rightarrow> bytes \<Rightarrow> (nat \<times> err option) \<times> 'w) \<Rightarrow> byte \<Rightarrow> 'w \<Rightarrow> bytes \<Rightarrow> (nat \<times> err option) \<times> 'w"
where
  "MultiplexWriter_WriteMsg wr tag w p =
     (case wr w (le_enc 4 (mplex_header tag p)) of
        ((_, Some e), w') \<Rightarrow> ((0, Some e), w')
      | ((_, None), w') \<Rightarrow> wr w' p)"

definition MultiplexWriter_Write ::
  "('w \<Rightarrow> bytes \<Rightarrow> (nat \<times> err option) \<times> 'w) \<Rightarrow> 'w \<Rightarrow> bytes \<Rightarrow> (nat \<times> err option) \<times> 'w"
where
  "MultiplexWriter_Write wr w p = MultiplexWriter_WriteMsg wr MsgData w p"

definition ReadMsg :: "('z reader_scheme, byte \<times> bytes) io" where
  "ReadMsg = ebind (ReadFull 4) (\<lambda>buf.
     let header = le_dec buf :: u32;
         tag = ucast (drop_bit 24 header) - mplexBase;
         length = header AND 0x00FFFFFF
     in if length > maxMessageSize then fail (Errorf ''length exceeds max message size'')
        else ebind (ReadFull (unat length)) (\<lambda>p. ret (tag, p)))"

text \<open>One \<open>Read\<close> into a buffer of \<open>plen\<close> bytes: the payload of one data message.\<close>

definition MultiplexReader_Read :: "nat \<Rightarrow> ('z reader_scheme, bytes) io" where
  "MultiplexReader_Read plen = ebind ReadMsg (\<lambda>(tag, payload).
     if tag = MsgError then fail (Errorf (map (char_of \<circ> unat) payload))
     else if tag \<noteq> MsgData then fail (Errorf ''unexpected tag'')
     else if plen < length payload then fail (Panic ''not enough buffer space!'')
     else ret payload)"

lemma header_length:
  assumes "length p < 2 ^ 24"
  shows "unat (mplex_header tag p AND 0x00FFFFFF) = length p"
proof -
  have m: "(0x00FFFFFF :: u32) = mask 24" by (simp add: mask_eq_exp_minus_1)
  have "mplex_header tag p AND mask 24 = (word_of_nat (length p) :: u32)"
  proof (rule bit_word_eqI)
    fix i assume i: "i < LENGTH(32)"
    have "bit (word_of_nat (length p) :: u32) i \<Longrightarrow> i < 24"
      using assms by (rule bit_word_of_nat_less [rotated])
    with i show "bit (mplex_header tag p AND mask 24) i = bit (word_of_nat (length p) :: u32) i"
      by (auto simp: mplex_header_def bit_and_iff bit_or_iff bit_push_bit_iff bit_mask_iff)
  qed
  then show ?thesis
    using assms by (simp add: m unat_of_nat take_bit_nat_eq_self)
qed

lemma header_tag:
  assumes "length p < 2 ^ 24"
  shows "ucast (drop_bit 24 (mplex_header tag p)) - mplexBase = tag"
proof -
  have "ucast (drop_bit 24 (mplex_header tag p)) = mplexBase + tag"
  proof (rule bit_word_eqI)
    fix i assume i: "i < LENGTH(8)"
    have "\<not> bit (word_of_nat (length p) :: u32) (24 + i)"
      using assms bit_word_of_nat_less by fastforce
    then show "bit (ucast (drop_bit 24 (mplex_header tag p)) :: byte) i = bit (mplexBase + tag) i"
      using i by (auto simp: mplex_header_def bit_unsigned_iff bit_drop_bit_eq bit_or_iff
          bit_push_bit_iff)
  qed
  then show ?thesis by simp
qed

text \<open>A frame whose payload fits a message is read back; a larger one is refused.\<close>

lemma ReadMsg_frame:
  assumes "rx c = frame tag p @ q" and "length p \<le> 262144"
  shows "ReadMsg c = (Inr (tag, p), advance (length (frame tag p)) c)"
proof -
  have lt: "length p < 2 ^ 24" using assms(2) by simp
  have len: "unat (mplex_header tag p AND 0x00FFFFFF) = length p"
    using lt by (rule header_length)
  have small: "\<not> (mplex_header tag p AND 0x00FFFFFF) > maxMessageSize"
    using assms(2) by (simp add: word_less_nat_alt len maxMessageSize_def ioBufferSize_def)
  have rx: "rx c = le_enc 4 (mplex_header tag p) @ p @ q"
    using assms(1) by (simp add: frame_def)
  have r1: "ReadFull 4 c = (Inr (le_enc 4 (mplex_header tag p)), advance 4 c)"
    using rx by (simp add: ReadFull_append)
  have r2: "ReadFull (length p) (advance 4 c) = (Inr p, advance (length p) (advance 4 c))"
    using rx by (intro ReadFull_append) auto
  show ?thesis
    using r2 small by (simp add: ReadMsg_def ebind_def r1 Let_def len header_tag [OF lt]
        r2 frame_def)
qed

lemma ReadMsg_too_long:
  assumes "rx c = frame tag p @ q" and "262144 < length p" and "length p < 2 ^ 24"
  shows "fst (ReadMsg c) = Inl (Errorf ''length exceeds max message size'')"
proof -
  have len: "unat (mplex_header tag p AND 0x00FFFFFF) = length p"
    using assms(3) by (rule header_length)
  have big: "(mplex_header tag p AND 0x00FFFFFF) > maxMessageSize"
    using assms(2) by (simp add: word_less_nat_alt len maxMessageSize_def ioBufferSize_def)
  have r1: "ReadFull 4 c = (Inr (le_enc 4 (mplex_header tag p)), advance 4 c)"
    using assms(1) by (simp add: ReadFull_append frame_def)
  show ?thesis
    using big by (simp add: ReadMsg_def ebind_def r1 Let_def)
qed

text \<open>
  From \<open>2 ^ 24\<close> on the length spills into the tag byte.  For a data message of exactly
  \<open>2 ^ 24\<close> bytes the tag survives (7 has the bit already) and the announced length is zero.
\<close>

lemma header_spill: "length p = 2 ^ 24 \<Longrightarrow> mplex_header MsgData p = 0x07000000"
  by (simp add: mplex_header_def msg_defs)

lemma ReadMsg_spill:
  assumes "rx c = frame MsgData p @ q" and "length p = 2 ^ 24"
  shows "ReadMsg c = (Inr (MsgData, []), advance 4 c)"
proof -
  have r1: "ReadFull 4 c = (Inr (le_enc 4 (mplex_header MsgData p)), advance 4 c)"
    using assms(1) by (simp add: ReadFull_append frame_def)
  have r2: "ReadFull 0 (advance 4 c) = (Inr [], advance 4 c)"
    by (simp add: ReadFull_def)
  show ?thesis
    by (simp add: ReadMsg_def ebind_def r1 Let_def header_spill [OF assms(2)] r2
        maxMessageSize_def ioBufferSize_def mplexBase_def MsgData_def [symmetric] del: MsgData_def)
qed

section \<open>Demultiplexing a whole stream\<close>

text \<open>The payloads of \<open>n\<close> consecutive data messages.\<close>

fun demux :: "nat \<Rightarrow> ('z reader_scheme, bytes list) io" where
  "demux 0 = ret []"
| "demux (Suc n) = ebind (MultiplexReader_Read 262144) (\<lambda>p. ebind (demux n) (\<lambda>ps. ret (p # ps)))"

lemma MultiplexReader_Read_frame:
  assumes "rx c = frame MsgData p @ q" and "length p \<le> plen" and "length p \<le> 262144"
  shows "MultiplexReader_Read plen c = (Inr p, advance (length (frame MsgData p)) c)"
  using ReadMsg_frame [OF assms(1) assms(3)] assms(2)
  by (simp add: MultiplexReader_Read_def ebind_Inr msg_defs)

lemma demux_frames:
  assumes "rx c = concat (map (frame MsgData) ps) @ q" and "\<forall>p \<in> set ps. length p \<le> 262144"
  shows "demux (length ps) c =
    (Inr ps, advance (length (concat (map (frame MsgData) ps))) c)"
  using assms
proof (induction ps arbitrary: c)
  case Nil
  then show ?case by simp
next
  case (Cons p ps)
  let ?c = "advance (length (frame MsgData p)) c"
  have rx: "rx c = frame MsgData p @ concat (map (frame MsgData) ps) @ q"
    using Cons.prems(1) by simp
  have rd: "MultiplexReader_Read 262144 c = (Inr p, ?c)"
    using rx Cons.prems(2) by (intro MultiplexReader_Read_frame) auto
  have "rx ?c = concat (map (frame MsgData) ps) @ q" using rx by simp
  then have ih: "demux (length ps) ?c =
      (Inr ps, advance (length (concat (map (frame MsgData) ps))) ?c)"
    using Cons.prems(2) by (intro Cons.IH) auto
  show ?case by (simp add: ebind_def rd ih)
qed

section \<open>The io.Writer interface\<close>

text \<open>
  A writer takes a buffer and returns how much of it was taken and an error.  The contract: a
  healthy writer takes everything and puts the encoding of the buffer on the wire; a write that
  reports no error took the whole buffer; whatever happens, the wire only grows, by a prefix of
  that encoding.
\<close>

locale io_writer =
  fixes wr :: "'w \<Rightarrow> bytes \<Rightarrow> (nat \<times> err option) \<times> 'w"
    and healthy :: "'w \<Rightarrow> bool"
    and out :: "'w \<Rightarrow> bytes"
    and encoding :: "bytes \<Rightarrow> bytes"
  assumes write_healthy: "healthy w \<Longrightarrow>
      \<exists>w'. wr w p = ((length p, None), w') \<and> healthy w' \<and> out w' = out w @ encoding p"
    and write_none: "wr w p = ((n, None), w') \<Longrightarrow>
      n = length p \<and> out w' = out w @ encoding p"
    and write_prefix: "wr w p = (r, w') \<Longrightarrow>
      \<exists>q. out w' = out w @ q \<and> prefix q (encoding p)"

text \<open>A sequence of writes that stops at the first error.\<close>

fun write_all ::
  "('w \<Rightarrow> bytes \<Rightarrow> (nat \<times> err option) \<times> 'w) \<Rightarrow> 'w \<Rightarrow> bytes list \<Rightarrow> err option \<times> 'w" where
  "write_all wr w [] = (None, w)"
| "write_all wr w (p # ps) =
     (case wr w p of ((_, Some e), w') \<Rightarrow> (Some e, w') | ((_, None), w') \<Rightarrow> write_all wr w' ps)"

context io_writer begin

lemma write_all_healthy:
  "healthy w \<Longrightarrow>
     \<exists>w'. write_all wr w ps = (None, w') \<and> healthy w' \<and>
          out w' = out w @ concat (map encoding ps)"
proof (induction ps arbitrary: w)
  case Nil
  then show ?case by simp
next
  case (Cons p ps)
  from write_healthy [OF Cons.prems, of p] obtain w1 where
    w1: "wr w p = ((length p, None), w1)" "healthy w1" "out w1 = out w @ encoding p" by blast
  from Cons.IH [OF w1(2)] show ?case by (auto simp: w1)
qed

lemma write_all_prefix:
  "write_all wr w ps = (e, w') \<Longrightarrow>
     \<exists>q. out w' = out w @ q \<and> prefix q (concat (map encoding ps)) \<and>
         (e = None \<longrightarrow> q = concat (map encoding ps))"
proof (induction ps arbitrary: w)
  case Nil
  then show ?case by simp
next
  case (Cons p ps)
  obtain n x w1 where w1: "wr w p = ((n, x), w1)" by (cases "wr w p") auto
  show ?case
  proof (cases x)
    case None
    then have o1: "out w1 = out w @ encoding p" using write_none w1 by blast
    from Cons.prems w1 None have "write_all wr w1 ps = (e, w')" by simp
    from Cons.IH [OF this] show ?thesis by (auto simp: o1)
  next
    case (Some y)
    with Cons.prems w1 have "e = Some y" "w' = w1" by auto
    with write_prefix [OF w1] show ?thesis by (auto intro: prefix_prefix)
  qed
qed

text \<open>Multiplexing on top of a writer gives a writer again: one frame for each write.\<close>

lemma mplex_writer:
  assumes plain: "\<And>p. encoding p = p"
  shows "io_writer (MultiplexWriter_Write wr) healthy out (frame MsgData)"
proof (unfold_locales, goal_cases)
  case (1 w p)
  let ?h = "le_enc 4 (mplex_header MsgData p)"
  from write_healthy [OF 1, of ?h] obtain w1 where
    w1: "wr w ?h = ((length ?h, None), w1)" "healthy w1" "out w1 = out w @ ?h"
    by (auto simp: plain)
  from write_healthy [OF w1(2), of p] w1(1,3) show ?case
    by (auto simp: MultiplexWriter_Write_def MultiplexWriter_WriteMsg_def frame_def plain)
next
  case (2 w p n w')
  then show ?case
    by (auto simp: MultiplexWriter_Write_def MultiplexWriter_WriteMsg_def frame_def plain
        split: prod.splits option.splits dest!: write_none)
next
  case (3 w p r w')
  let ?h = "le_enc 4 (mplex_header MsgData p)"
  obtain n x w1 where w1: "wr w ?h = ((n, x), w1)" by (cases "wr w ?h") auto
  show ?case
  proof (cases x)
    case None
    then have o1: "out w1 = out w @ ?h" using write_none w1 plain by metis
    from 3 w1 None have "wr w1 p = (r, w')"
      by (simp add: MultiplexWriter_Write_def MultiplexWriter_WriteMsg_def)
    from write_prefix [OF this] show ?thesis by (auto simp: o1 frame_def plain)
  next
    case (Some e)
    with 3 w1 have "w' = w1"
      by (simp add: MultiplexWriter_Write_def MultiplexWriter_WriteMsg_def)
    with write_prefix [OF w1] show ?thesis by (auto simp: frame_def plain intro: prefix_prefix)
  qed
qed

end

section \<open>The transport and the counting writer\<close>

record net_writer =
  wire :: bytes
  space :: "nat option"

definition net_Write :: "net_writer \<Rightarrow> bytes \<Rightarrow> (nat \<times> err option) \<times> net_writer" where
  "net_Write w p =
     (case space w of
        None \<Rightarrow> ((length p, None), w\<lparr>wire := wire w @ p\<rparr>)
      | Some k \<Rightarrow>
          if length p \<le> k then ((length p, None), w\<lparr>wire := wire w @ p, space := Some (k - length p)\<rparr>)
          else ((k, Some ErrWrite), w\<lparr>wire := wire w @ take k p, space := Some 0\<rparr>))"

record 'w CountingWriter =
  W :: 'w
  BytesWritten :: int

definition CountingWriter_Write ::
  "('w \<Rightarrow> bytes \<Rightarrow> (nat \<times> err option) \<times> 'w) \<Rightarrow>
   'w CountingWriter \<Rightarrow> bytes \<Rightarrow> (nat \<times> err option) \<times> 'w CountingWriter"
where
  "CountingWriter_Write wr w p =
     (case wr (W w) p of ((n, e), w') \<Rightarrow>
        ((n, e), \<lparr>W = w', BytesWritten = BytesWritten w + int n\<rparr>))"

interpretation net: io_writer net_Write "\<lambda>w. space w = None" wire "\<lambda>p. p"
  by unfold_locales
    (auto simp: net_Write_def take_is_prefix split: option.splits if_splits)

interpretation cw: io_writer "CountingWriter_Write net_Write" "\<lambda>w. space (W w) = None"
  "\<lambda>w. wire (W w)" "\<lambda>p. p"
  by unfold_locales
    (auto simp: CountingWriter_Write_def net_Write_def take_is_prefix split: option.splits if_splits)

interpretation mpx: io_writer "MultiplexWriter_Write (CountingWriter_Write net_Write)"
  "\<lambda>w. space (W w) = None" "\<lambda>w. wire (W w)" "frame MsgData"
  by (rule cw.mplex_writer) simp

text \<open>The writer stack of a connection after the switch to multiplexing.\<close>

definition mplex_Write :: "net_writer CountingWriter \<Rightarrow> bytes \<Rightarrow>
    (nat \<times> err option) \<times> net_writer CountingWriter" where
  "mplex_Write = MultiplexWriter_Write (CountingWriter_Write net_Write)"

definition counter_exact :: "net_writer CountingWriter \<Rightarrow> bool" where
  "counter_exact w \<longleftrightarrow> BytesWritten w = int (length (wire (W w)))"

lemma CountingWriter_exact:
  "counter_exact w \<Longrightarrow> CountingWriter_Write net_Write w p = (r, w') \<Longrightarrow> counter_exact w'"
  by (auto simp: counter_exact_def CountingWriter_Write_def net_Write_def split: option.splits if_splits)

lemma mplex_Write_exact: "counter_exact w \<Longrightarrow> mplex_Write w p = (r, w') \<Longrightarrow> counter_exact w'"
  by (auto simp: mplex_Write_def MultiplexWriter_Write_def MultiplexWriter_WriteMsg_def
      split: prod.splits option.splits dest: CountingWriter_exact)

lemma write_all_exact:
  "counter_exact w \<Longrightarrow> write_all mplex_Write w ps = (e, w') \<Longrightarrow> counter_exact w'"
proof (induction ps arbitrary: w)
  case Nil
  then show ?case by simp
next
  case (Cons p ps)
  obtain n x w1 where w1: "mplex_Write w p = ((n, x), w1)" by (cases "mplex_Write w p") auto
  have "counter_exact w1" using Cons.prems(1) w1 by (rule mplex_Write_exact)
  with Cons w1 show ?case by (cases x) auto
qed

end
