(* ===== verification/Readers.thy ===== *)
theory Readers
  imports Multiplex
begin

text \<open>
  Go's \<open>io.Reader\<close> as an interface, \<open>io.ReadFull\<close> on any such reader, and the reader stack
  of the program: a transport that delivers the stream in segments of any size, under the
  \<open>CountingReader\<close> of rsyncwire/wire.go.  The result of this theory is that the flat
  \<open>ReadFull\<close> of theory Wire, which ignores segments, is what the stack computes.
\<close>

section \<open>The interface\<close>

locale byte_reader =
  fixes rd :: "'r \<Rightarrow> nat \<Rightarrow> (bytes \<times> err option) \<times> 'r"
    and wf :: "'r \<Rightarrow> bool"
    and pending :: "'r \<Rightarrow> bytes"
  assumes read_data: "wf r \<Longrightarrow> pending r \<noteq> [] \<Longrightarrow> 0 < n \<Longrightarrow>
      \<exists>bs r'. rd r n = ((bs, None), r') \<and> bs \<noteq> [] \<and> length bs \<le> n \<and>
              pending r = bs @ pending r' \<and> wf r'"
    and read_eof: "wf r \<Longrightarrow> pending r = [] \<Longrightarrow> 0 < n \<Longrightarrow>
      \<exists>r'. rd r n = (([], Some EOF), r') \<and> pending r' = [] \<and> wf r'"

text \<open>A reader that also reports how many bytes it has handed out.\<close>

locale counting_reader = byte_reader +
  fixes count :: "'r \<Rightarrow> int"
  assumes count_read: "rd r n = ((bs, e), r') \<Longrightarrow> count r' = count r + int (length bs)"

text \<open>
  \<open>io.ReadAtLeast(r, buf, need)\<close> with a buffer of \<open>need\<close> more bytes; \<open>acc\<close> is what is in the
  buffer already.  A reader may return nothing without an error for ever, hence the fuel.
\<close>

fun io_ReadAtLeast ::
  "('r \<Rightarrow> nat \<Rightarrow> (bytes \<times> err option) \<times> 'r) \<Rightarrow> nat \<Rightarrow> nat \<Rightarrow> bytes \<Rightarrow> 'r \<Rightarrow> ((err + bytes) \<times> 'r) option"
where
  "io_ReadAtLeast rd fuel 0 acc r = Some (Inr acc, r)"
| "io_ReadAtLeast rd 0 (Suc need) acc r = None"
| "io_ReadAtLeast rd (Suc fuel) (Suc need) acc r =
     (case rd r (Suc need) of
        ((bs, None), r') \<Rightarrow> io_ReadAtLeast rd fuel (Suc need - length bs) (acc @ bs) r'
      | ((bs, Some e), r') \<Rightarrow>
          Some (if Suc need \<le> length bs then Inr (acc @ bs)
                else if acc @ bs \<noteq> [] \<and> e = EOF then Inl ErrUnexpectedEOF else Inl e, r'))"

definition io_ReadFull ::
  "('r \<Rightarrow> nat \<Rightarrow> (bytes \<times> err option) \<times> 'r) \<Rightarrow> nat \<Rightarrow> nat \<Rightarrow> 'r \<Rightarrow> ((err + bytes) \<times> 'r) option" where
  "io_ReadFull rd fuel n r = io_ReadAtLeast rd fuel n [] r"

context byte_reader begin

lemma io_ReadAtLeast_flat:
  assumes "wf r" and "need \<le> fuel"
  shows "\<exists>r'. wf r' \<and> pending r' = drop need (pending r) \<and>
    io_ReadAtLeast rd fuel need acc r =
      Some (if need \<le> length (pending r) then Inr (acc @ take need (pending r))
            else if acc = [] \<and> pending r = [] then Inl EOF else Inl ErrUnexpectedEOF, r')"
  using assms
proof (induction fuel arbitrary: need acc r)
  case 0
  then show ?case by auto
next
  case (Suc fuel)
  show ?case
  proof (cases need)
    case 0
    with Suc.prems show ?thesis by auto
  next
    case need: (Suc m)
    show ?thesis
    proof (cases "pending r = []")
      case True
      with read_eof [OF Suc.prems(1) True, of need] need show ?thesis by auto
    next
      case False
      then obtain bs r1 where r1: "rd r need = ((bs, None), r1)" "bs \<noteq> []" "length bs \<le> need"
        "pending r = bs @ pending r1" "wf r1"
        using read_data [OF Suc.prems(1) False, of need] need by auto
      from r1(2) Suc.prems(2) have le: "need - length bs \<le> fuel" by (cases bs) auto
      from Suc.IH [OF r1(5) le, of "acc @ bs"] r1 need show ?thesis
        by (auto simp: le_diff_conv split: if_splits)
    qed
  qed
qed

lemma io_ReadFull_flat:
  assumes "wf r" and "n \<le> fuel"
  shows "\<exists>r'. wf r' \<and>
    io_ReadFull rd fuel n r = Some (fst (ReadFull n \<lparr>rx = pending r, nread = k\<rparr>), r') \<and>
    pending r' = rx (snd (ReadFull n \<lparr>rx = pending r, nread = k\<rparr>))"
  using io_ReadAtLeast_flat [OF assms, of "[]"]
  by (auto simp: io_ReadFull_def ReadFull_def advance_def split: if_splits)

end

context counting_reader begin

lemma io_ReadAtLeast_count:
  assumes "wf r" and "need \<le> fuel" and "io_ReadAtLeast rd fuel need acc r = Some (res, r')"
  shows "count r' = count r + int (min need (length (pending r)))"
  using assms
proof (induction fuel arbitrary: need acc r)
  case 0
  then show ?case by auto
next
  case (Suc fuel)
  show ?case
  proof (cases need)
    case 0
    with Suc.prems show ?thesis by auto
  next
    case need: (Suc m)
    show ?thesis
    proof (cases "pending r = []")
      case True
      obtain r1 where "rd r need = (([], Some EOF), r1)"
        using read_eof [OF Suc.prems(1) True, of need] need by auto
      from this count_read [OF this] need True Suc.prems(3) show ?thesis by auto
    next
      case False
      then obtain bs r1 where r1: "rd r need = ((bs, None), r1)" "bs \<noteq> []" "length bs \<le> need"
        "pending r = bs @ pending r1" "wf r1"
        using read_data [OF Suc.prems(1) False, of need] need by auto
      from r1(2) Suc.prems(2) have le: "need - length bs \<le> fuel" by (cases bs) auto
      have "io_ReadAtLeast rd fuel (need - length bs) (acc @ bs) r1 = Some (res, r')"
        using Suc.prems(3) r1(1) need by simp
      from Suc.IH [OF r1(5) le this] count_read [OF r1(1)] r1(3,4) show ?thesis
        by (auto simp: min_def)
    qed
  qed
qed

end

section \<open>The transport in segments, and the counting reader\<close>

fun net_Read :: "bytes list \<Rightarrow> nat \<Rightarrow> (bytes \<times> err option) \<times> bytes list" where
  "net_Read [] n = (([], Some EOF), [])"
| "net_Read (s # ss) n = ((take n s, None), if length s \<le> n then ss else drop n s # ss)"

record 'r CountingReader =
  R :: 'r
  BytesRead :: int

definition CountingReader_Read ::
  "('r \<Rightarrow> nat \<Rightarrow> (bytes \<times> err option) \<times> 'r) \<Rightarrow>
   'r CountingReader \<Rightarrow> nat \<Rightarrow> (bytes \<times> err option) \<times> 'r CountingReader"
where
  "CountingReader_Read rd r n =
     (case rd (R r) n of ((bs, e), r') \<Rightarrow>
        ((bs, e), \<lparr>R = r', BytesRead = BytesRead r + int (length bs)\<rparr>))"

definition CounterPair :: "'r \<Rightarrow> 'w \<Rightarrow> 'r CountingReader \<times> 'w CountingWriter" where
  "CounterPair r w = (\<lparr>R = r, BytesRead = 0\<rparr>, \<lparr>W = w, BytesWritten = 0\<rparr>)"

lemma net_Read_data:
  "[] \<notin> set ss \<Longrightarrow> concat ss \<noteq> [] \<Longrightarrow> 0 < n \<Longrightarrow>
     \<exists>bs ss'. net_Read ss n = ((bs, None), ss') \<and> bs \<noteq> [] \<and> length bs \<le> n \<and>
              concat ss = bs @ concat ss' \<and> [] \<notin> set ss'"
  by (cases ss) auto

lemma net_Read_eof:
  "[] \<notin> set ss \<Longrightarrow> concat ss = [] \<Longrightarrow> net_Read ss n = (([], Some EOF), [])"
  by (cases ss) auto

interpretation segs: byte_reader net_Read "\<lambda>ss. [] \<notin> set ss" concat
proof (unfold_locales, goal_cases)
  case (1 r n)
  then show ?case by (rule net_Read_data)
next
  case (2 r n)
  from net_Read_eof [OF 2(1,2)] show ?case by simp
qed

interpretation crd: counting_reader "CountingReader_Read net_Read" "\<lambda>r. [] \<notin> set (R r)"
  "\<lambda>r. concat (R r)" BytesRead
proof (unfold_locales, goal_cases)
  case (1 r n)
  from net_Read_data [OF this] show ?case by (auto simp: CountingReader_Read_def)
next
  case (2 r n)
  from net_Read_eof [OF 2(1,2)] show ?case by (auto simp: CountingReader_Read_def)
next
  case (3 r n bs e r')
  then show ?case by (auto simp: CountingReader_Read_def split: prod.splits)
qed

section \<open>What the connection promises\<close>

text \<open>
  C28: over a counting reader that hands out the peer's segments in whatever pieces they arrive,
  io.ReadFull returns exactly the next bytes of the stream (or the end-of-stream errors), and the
  counter grows by exactly the bytes consumed.
\<close>
theorem ReadFull_over_segments:
  assumes "[] \<notin> set (R r)" and "n \<le> fuel"
  shows "\<exists>r'. io_ReadFull (CountingReader_Read net_Read) fuel n r =
      Some (fst (ReadFull n \<lparr>rx = concat (R r), nread = k\<rparr>), r') \<and>
    concat (R r') = rx (snd (ReadFull n \<lparr>rx = concat (R r), nread = k\<rparr>)) \<and>
    BytesRead r' = BytesRead r + int (min n (length (concat (R r))))"
proof -
  obtain r' where r': "io_ReadFull (CountingReader_Read net_Read) fuel n r =
      Some (fst (ReadFull n \<lparr>rx = concat (R r), nread = k\<rparr>), r')"
    "concat (R r') = rx (snd (ReadFull n \<lparr>rx = concat (R r), nread = k\<rparr>))"
    using crd.io_ReadFull_flat [OF assms] by blast
  then have "BytesRead r' = BytesRead r + int (min n (length (concat (R r))))"
    using crd.io_ReadAtLeast_count [OF assms] by (auto simp: io_ReadFull_def)
  with r' show ?thesis by blast
qed

theorem ReadFull_over_segments_witness:
  "\<exists>r'. io_ReadFull (CountingReader_Read net_Read) 4 4 \<lparr>R = [[1, 2, 3], [4, 5]], BytesRead = 7\<rparr> =
      Some (fst (ReadFull 4 \<lparr>rx = [1, 2, 3, 4, 5], nread = 0\<rparr>), r') \<and> BytesRead r' = 11"
  using ReadFull_over_segments [of "\<lparr>R = [[1, 2, 3], [4, 5]], BytesRead = 7\<rparr>" 4 4 0] by auto

text \<open>
  C27: what Conn.WriteInt64 puts on the wire (four bytes, or -1 and eight bytes), Conn.ReadInt64
  reads back as the same integer, leaving exactly the bytes that follow.
\<close>
theorem WriteInt64_ReadInt64:
  assumes "room c = None" and "sent c = []"
  shows "\<exists>c'. WriteInt64 x c = (Inr (), c') \<and>
    (\<forall>d :: conn. rx d = sent c' @ q \<longrightarrow> (\<exists>d'. ReadInt64 d = (Inr x, d') \<and> rx d' = q))"
proof -
  obtain c' where "WriteInt64 x c = (Inr (), c')" "wrote c (enc64 x) c'"
    using WriteInt64_sent [OF assms(1)] by blast
  with assms(2) show ?thesis by (auto simp: wrote_def ReadInt64_enc64)
qed

theorem WriteInt64_ReadInt64_witness:
  "\<exists>c'. WriteInt64 (2 ^ 40) \<lparr>rx = [], nread = 0, tx = [], room = None\<rparr> = (Inr (), c') \<and>
    (\<forall>d :: conn. rx d = sent c' @ [9] \<longrightarrow> (\<exists>d'. ReadInt64 d = (Inr (2 ^ 40), d') \<and> rx d' = [9]))"
  by (rule WriteInt64_ReadInt64) (simp_all add: sent_def)

text \<open>
  C22: whatever data messages are pushed through the MultiplexWriter over the counting writer, if
  none is longer than the maximal message, the MultiplexReader returns exactly these messages, in
  order, and BytesWritten is what went out.
\<close>
theorem multiplex_roundtrip:
  assumes "space (W w) = None" and "wire (W w) = []" and "BytesWritten w = 0"
    and "\<forall>p \<in> set ps. length p \<le> 262144"
  shows "\<exists>w'. write_all mplex_Write w ps = (None, w') \<and> BytesWritten w' = int (length (wire (W w'))) \<and>
    (\<forall>(c :: reader) q. rx c = wire (W w') @ q \<longrightarrow> (\<exists>c'. demux (length ps) c = (Inr ps, c') \<and> rx c' = q))"
proof -
  obtain w' where w': "write_all mplex_Write w ps = (None, w')" "wire (W w') = concat (map (frame MsgData) ps)"
    using mpx.write_all_healthy [OF assms(1), of ps] assms(2) unfolding mplex_Write_def by auto
  have "counter_exact w" using assms(2,3) by (simp add: counter_exact_def)
  then have "counter_exact w'" using write_all_exact w'(1) by blast
  then have "BytesWritten w' = int (length (wire (W w')))" by (simp add: counter_exact_def)
  moreover have "\<exists>c'. demux (length ps) c = (Inr ps, c') \<and> rx c' = q" if "rx c = wire (W w') @ q" for c :: reader and q
    using demux_frames [OF _ assms(4), of c q] that w'(2) by simp
  ultimately show ?thesis using w'(1) by blast
qed

theorem multiplex_roundtrip_witness:
  "\<exists>w'. write_all mplex_Write \<lparr>W = \<lparr>wire = [], space = None\<rparr>, BytesWritten = 0\<rparr> [[1, 2, 3], [], [255]] = (None, w') \<and>
    BytesWritten w' = int (length (wire (W w'))) \<and>
    (\<forall>(c :: reader) q. rx c = wire (W w') @ q \<longrightarrow>
       (\<exists>c'. demux (length [[1, 2, 3], [], [255 :: byte]]) c = (Inr [[1, 2, 3], [], [255]], c') \<and> rx c' = q))"
  by (rule multiplex_roundtrip) simp_all

text \<open>
  C25: the writer puts no bound on a message; one that is longer than 256 KiB and shorter than 16
  MiB is sent in full, without an error, and refused by the reader.
\<close>
theorem oversized_message_refused:
  assumes "space w = None" and "262144 < length p" and "length p < 2 ^ 24"
  shows "\<exists>w'. MultiplexWriter_Write net_Write w p = ((length p, None), w') \<and>
    (\<forall>c :: reader. rx c = drop (length (wire w)) (wire w') @ q \<longrightarrow>
       fst (ReadMsg c) = Inl (Errorf ''length exceeds max message size''))"
proof -
  have "io_writer (MultiplexWriter_Write net_Write) (\<lambda>w. space w = None) wire (frame MsgData)"
    by (rule net.mplex_writer) simp
  from io_writer.write_healthy [OF this assms(1), of p] obtain w' where
    "MultiplexWriter_Write net_Write w p = ((length p, None), w')" "wire w' = wire w @ frame MsgData p" by blast
  with ReadMsg_too_long [OF _ assms(2,3)] show ?thesis by auto
qed

theorem oversized_message_refused_witness:
  "\<exists>w'. MultiplexWriter_Write net_Write \<lparr>wire = [], space = None\<rparr> (replicate 262145 0) = ((262145, None), w') \<and>
    (\<forall>c :: reader. rx c = drop 0 (wire w') @ [] \<longrightarrow>
       fst (ReadMsg c) = Inl (Errorf ''length exceeds max message size''))"
  using oversized_message_refused [of "\<lparr>wire = [], space = None\<rparr>" "replicate 262145 0" "[]"] by simp



end
