(* ===== verification/SendFiles.thy ===== *)
theory SendFiles
  imports HashSearchSpec Readers
begin

text \<open>
  rsyncsender/sender.go: \<open>sendFile\<close>, which sends a whole file, and \<open>SendFiles\<close>, which serves the
  receiver's requests.  The file system of the caller (\<open>utils.FS\<close>) is a parameter: \<open>fs_read\<close> opens
  a file, \<open>rd\<close> is the \<open>Read\<close> of what it returns.
\<close>

section \<open>Sending a whole file\<close>

text \<open>The loop of \<open>sendFile\<close>; \<open>h\<close> is what has gone into the hash, which the loop returns.\<close>

fun sendFile_loop ::
  "('r \<Rightarrow> nat \<Rightarrow> (bytes \<times> err option) \<times> 'r) \<Rightarrow> nat \<Rightarrow> 'r \<Rightarrow> bytes \<Rightarrow> ('z conn_scheme, bytes) run" where
  "sendFile_loop rd 0 r h c = None"
| "sendFile_loop rd (Suc fuel) r h c =
     (case rd r (nat chunkSize) of
        ((chunk, e), r') \<Rightarrow>
          if e \<noteq> None \<and> e \<noteq> Some EOF then lift (fail (the e)) c
          else if chunk = [] then lift (ret h) c
          else rbind (lift (WriteInt32 (word_of_int (int (length chunk))))) (\<lambda>_.
               rbind (lift (conn_Write chunk)) (\<lambda>_.
               if e = Some EOF then lift (ret (h @ chunk))
               else sendFile_loop rd fuel r' (h @ chunk))) c)"

definition sendFile ::
  "(bytes \<Rightarrow> bytes) \<Rightarrow> i32 \<Rightarrow> (SenderFile \<Rightarrow> err + FileInfo \<times> 'r) \<Rightarrow>
   ('r \<Rightarrow> nat \<Rightarrow> (bytes \<times> err option) \<times> 'r) \<Rightarrow> nat \<Rightarrow> i32 \<Rightarrow> SenderFile \<Rightarrow> ('z conn_scheme, unit) run" where
  "sendFile md4 seed fs_read rd fuel fileIndex fl =
     (case fs_read fl of
        Inl e \<Rightarrow> lift (fail e)
      | Inr (fi, r) \<Rightarrow>
          rbind (lift (WriteInt32 fileIndex)) (\<lambda>_.
          rbind (lift (WriteTo (SumSizesSqroot (fiSize fi)))) (\<lambda>_.
          rbind (sendFile_loop rd fuel r (le_enc 4 seed)) (\<lambda>h.
          rbind (lift (WriteInt32 0)) (\<lambda>_.
          lift (conn_Write (md4 h)))))))"

text \<open>A reader that keeps the contract of \<open>io.Reader\<close>: the literals are its content.\<close>

context byte_reader
begin

lemma sendFile_loop_sends:
  "wf r \<Longrightarrow> room c = None \<Longrightarrow> length (pending r) < fuel \<Longrightarrow>
    \<exists>bs d. sendFile_loop rd fuel r h c = Some (Inr (h @ pending r), d) \<and>
      wrote c (enc_tokens (map Lit bs)) d \<and> concat bs = pending r \<and>
      (\<forall>b \<in> set bs. b \<noteq> [] \<and> int (length b) \<le> chunkSize)"
proof (induction fuel arbitrary: r h c)
  case 0
  then show ?case by simp
next
  case (Suc fuel)
  have n: "0 < nat chunkSize" using chunkSize_pos by simp
  show ?case
  proof (cases "pending r = []")
    case True
    from read_eof [OF Suc.prems(1) this n] True Suc.prems(2) show ?thesis
      by (auto simp: lift_def wrote_refl intro!: exI [of _ "[]"])
  next
    case False
    from read_data [OF Suc.prems(1) this n] obtain b r' where
      b: "rd r (nat chunkSize) = ((b, None), r')" "b \<noteq> []" "length b \<le> nat chunkSize"
        "pending r = b @ pending r'" "wf r'" by blast
    let ?c = "emit b (emit (le_enc 4 (word_of_int (int (length b)) :: i32)) c)"
    have "length (pending r') < fuel" using b(2,4) Suc.prems(3) by (cases b) auto
    then obtain bs d where d: "sendFile_loop rd fuel r' (h @ b) ?c = Some (Inr ((h @ b) @ pending r'), d)"
      "wrote ?c (enc_tokens (map Lit bs)) d" "concat bs = pending r'"
      "\<forall>b \<in> set bs. b \<noteq> [] \<and> int (length b) \<le> chunkSize"
      using Suc.IH [OF b(5), of ?c "h @ b"] Suc.prems(2) by auto
    have "wrote c (enc_token (Lit b)) ?c" using Suc.prems(2) by (simp add: wrote_def)
    from wrote_trans [OF this d(2)] have "wrote c (enc_tokens (map Lit (b # bs))) d" by simp
    moreover have "sendFile_loop rd (Suc fuel) r h c = Some (Inr (h @ pending r), d)"
      using b d(1) Suc.prems(2) by (simp add: WriteInt32_ok conn_Write_ok)
    moreover have "int (length b) \<le> chunkSize" using b(3) chunkSize_pos by simp
    ultimately show ?thesis using b(2,4) d(3,4) by (intro exI [of _ "b # bs"] exI [of _ d]) auto
  qed
qed

lemma sendFile_sends:
  assumes "fs_read fl = Inr (fi, r)" and "wf r" and "room c = None" and "length (pending r) < fuel"
  shows "\<exists>bs d. sendFile md4 seed fs_read rd fuel idx fl c = Some (Inr (), d) \<and>
    wrote c (le_enc 4 idx @ enc_head (SumSizesSqroot (fiSize fi)) @ enc_tokens (map Lit bs) @ enc_end @
             md4 (le_enc 4 seed @ pending r)) d \<and> concat bs = pending r \<and>
    (\<forall>b \<in> set bs. b \<noteq> [] \<and> int (length b) \<le> chunkSize)"
proof -
  let ?c = "emit (enc_head (SumSizesSqroot (fiSize fi))) (emit (le_enc 4 idx) c)"
  have wc: "wrote c (le_enc 4 idx @ enc_head (SumSizesSqroot (fiSize fi))) ?c"
    using assms(3) by (simp add: wrote_def)
  obtain bs d where d: "sendFile_loop rd fuel r (le_enc 4 seed) ?c = Some (Inr (le_enc 4 seed @ pending r), d)"
    "wrote ?c (enc_tokens (map Lit bs)) d" "concat bs = pending r"
    "\<forall>b \<in> set bs. b \<noteq> [] \<and> int (length b) \<le> chunkSize"
    using sendFile_loop_sends [OF assms(2) _ assms(4), of ?c "le_enc 4 seed"] assms(3) by auto
  note w1 = wrote_conn_Write [OF wrote_trans [OF wc d(2)], of enc_end]
  note w2 = wrote_conn_Write [OF conjunct2 [OF w1], of "md4 (le_enc 4 seed @ pending r)"]
  have "sendFile md4 seed fs_read rd fuel idx fl c =
      Some (Inr (), emit (md4 (le_enc 4 seed @ pending r)) (emit enc_end d))"
    using assms(1,3) d(1) wrote_room [OF d(2)]
    by (simp add: sendFile_def WriteTo_def WriteInt32_ok WriteString_ok rbind_Some conn_Write_ok lift_def
        rbind_def enc_end_def)
  with w2 d(3,4) show ?thesis by (intro exI [of _ bs]) auto
qed

end

section \<open>Serving requests\<close>

definition Files_at :: "SenderFile list \<Rightarrow> i32 \<Rightarrow> ('s, SenderFile) io" where
  "Files_at files i =
     (if 0 \<le> sint i \<and> sint i < int (length files) then ret (files ! nat (sint i))
      else fail (Panic ''index out of range''))"

text \<open>What a run does with a \<open>*os.PathError\<close>: log it and go on.\<close>

definition skip_PathError :: "'a \<Rightarrow> ('s, unit) run \<Rightarrow> ('s, 'a) run" where
  "skip_PathError x m s =
     (case m s of
        None \<Rightarrow> None
      | Some (Inl (PathError b), s') \<Rightarrow> Some (Inr x, s')
      | Some (Inl e, s') \<Rightarrow> Some (Inl e, s')
      | Some (Inr _, s') \<Rightarrow> Some (Inr x, s'))"

text \<open>
  The surroundings of the loop: the strong checksum, the session's seed, the caller's file system,
  \<open>os.OpenFile\<close> with \<open>Stat\<close>, the sort, and the \<open>--dry-run\<close> option.
\<close>

record 'r send_env =
  e_md4 :: "bytes \<Rightarrow> bytes"
  e_seed :: i32
  e_read :: "SenderFile \<Rightarrow> err + FileInfo \<times> 'r"
  e_rd :: "'r \<Rightarrow> nat \<Rightarrow> (bytes \<times> err option) \<times> 'r"
  e_open :: "bytes \<Rightarrow> err + osfile \<times> int"
  e_sort :: "target list \<Rightarrow> target list"
  e_dry :: bool

definition serve :: "'r send_env \<Rightarrow> nat \<Rightarrow> SenderFile list \<Rightarrow> i32 \<Rightarrow> SumHead \<Rightarrow> (transfer, unit) run" where
  "serve E fuel files idx head =
     (let targets = build_targets (e_sort E) head;
          tagTable = build_tagTable targets
      in rbind (lift (\<lambda>s. (Inr (), s\<lparr>lastMatch := 0\<rparr>))) (\<lambda>_.
         rbind (lift (Files_at files idx)) (\<lambda>fl.
         if Sums head = []
         then sendFile (e_md4 E) (e_seed E) (e_read E) (e_rd E) fuel idx fl
         else hashSearch (e_md4 E) (e_seed E) (e_open E) fuel targets tagTable head idx fl)))"

text \<open>One round of the loop; the result is the phase it goes on in, or \<open>None\<close> when the loop ends.\<close>

definition SendFiles_step :: "'r send_env \<Rightarrow> nat \<Rightarrow> SenderFile list \<Rightarrow> nat \<Rightarrow> (transfer, nat option) run" where
  "SendFiles_step E fuel files phase =
     rbind (lift ReadInt32) (\<lambda>fileIndex.
       if fileIndex = -1 then
         (if phase = 0 then rbind (lift (WriteInt32 (-1))) (\<lambda>_. lift (ret (Some (phase + 1))))
          else lift (ret None))
       else if e_dry E then rbind (lift (WriteInt32 fileIndex)) (\<lambda>_. lift (ret (Some phase)))
       else rbind (lift receiveSums) (\<lambda>head.
              skip_PathError (Some phase) (serve E fuel files fileIndex head)))"

fun SendFiles_loop :: "'r send_env \<Rightarrow> nat \<Rightarrow> SenderFile list \<Rightarrow> nat \<Rightarrow> nat \<Rightarrow> (transfer, unit) run" where
  "SendFiles_loop E fuel files 0 phase s = None"
| "SendFiles_loop E fuel files (Suc n) phase s =
     rbind (SendFiles_step E fuel files phase) (\<lambda>r.
       case r of None \<Rightarrow> lift (ret ()) | Some phase' \<Rightarrow> SendFiles_loop E fuel files n phase') s"

definition SendFiles :: "'r send_env \<Rightarrow> nat \<Rightarrow> nat \<Rightarrow> SenderFile list \<Rightarrow> (transfer, unit) run" where
  "SendFiles E fuel rounds files =
     rbind (SendFiles_loop E fuel files rounds 0) (\<lambda>_. lift (WriteInt32 (-1)))"

end
