(* ===== verification/ClientRun.thy ===== *)
theory ClientRun
  imports SendList Generator SendFiles
begin

text \<open>
  The sessions: \<open>Do\<close> of the two sides (rsyncsender/do.go, rsyncreceiver/do.go) and the entry points
  \<open>ClientRun\<close> (client.go of both packages), with the handshake, the switch to the multiplexed writer
  and the error message sent at the end of a failed session.
\<close>

section \<open>Statistics\<close>

record TransferStats =
  st_Read :: i64
  st_Written :: i64
  st_Size :: i64

section \<open>The receiver's Do\<close>

definition deleteFiles :: "recv_env \<Rightarrow> ReceiverFile list \<Rightarrow> (recvr, unit) io" where
  "deleteFiles E fileList s =
     (if sint (IOErrors s) > 0 then (Inr (), s)
      else (case r_remove E fileList of None \<Rightarrow> Inr () | Some e \<Rightarrow> Inl e,
            s\<lparr>removed := removed s @ [fileList]\<rparr>))"

definition report :: "('z reader_scheme, TransferStats) io" where
  "report =
     ebind ReadInt64 (\<lambda>rd.
     ebind ReadInt64 (\<lambda>written.
     ebind ReadInt64 (\<lambda>sz.
     ret \<lparr>st_Read = rd, st_Written = written, st_Size = sz\<rparr>)))"

text \<open>
  Generator and receiver run beside each other.  The one only writes to the connection, the other
  only reads, so the order does not matter for what they do (theory Interleave); it decides whose
  error \<open>Wait\<close> returns when both fail, which is \<open>gen_first\<close>.  After an error of the generator the
  source returns without waiting for \<open>RecvFiles\<close>; the state here is the one after it has run out.
\<close>

definition both :: "bool \<Rightarrow> ('s, unit) io \<Rightarrow> ('s, unit) io \<Rightarrow> ('s, unit) io" where
  "both gen_first g r s =
     (case g s of (eg, s1) \<Rightarrow>
        (case r s1 of (er, s2) \<Rightarrow>
           (case eg of
              Inr _ \<Rightarrow> er
            | Inl e \<Rightarrow> (case er of Inr _ \<Rightarrow> Inl e | Inl e' \<Rightarrow> Inl (if gen_first then e else e')), s2)))"

definition receiver_Do :: "bool \<Rightarrow> recv_env \<Rightarrow> ReceiverFile list \<Rightarrow> bool \<Rightarrow> (recvr, TransferStats option) io" where
  "receiver_Do gen_first E fileList noReport =
     ebind (if DeleteMode (r_opts E) then deleteFiles E fileList else ret ()) (\<lambda>_.
     ebind (both gen_first (GenerateFiles E fileList) (RecvFiles E fileList 0)) (\<lambda>_.
     ebind (if noReport then ret None else ebind report (\<lambda>st. ret (Some st))) (\<lambda>stats.
     ebind (WriteInt32 (-1)) (\<lambda>_. ret stats))))"

section \<open>The sender's Do\<close>

text \<open>What the log of writes becomes below the \<open>MultiplexWriter\<close>, on the counting writer.\<close>

definition below :: "net_writer CountingWriter \<Rightarrow> bytes list \<Rightarrow> net_writer CountingWriter" where
  "below cwr log = snd (write_all mplex_Write cwr log)"

text \<open>
  \<open>cwr\<close> is the counting writer as it was when the log began; \<open>crd.BytesRead\<close> is \<open>nread\<close>.
\<close>

definition send_stats :: "net_writer CountingWriter \<Rightarrow> i64 \<Rightarrow> (transfer, TransferStats) run" where
  "send_stats cwr totalSize =
     rbind (\<lambda>s. lift (WriteInt64 (word_of_nat (nread s))) s) (\<lambda>_.
     rbind (\<lambda>s. lift (WriteInt64 (word_of_int (BytesWritten (below cwr (tx s))))) s) (\<lambda>_.
     rbind (lift (WriteInt64 totalSize)) (\<lambda>_.
     rbind (lift ReadInt32) (\<lambda>finish.
       if finish \<noteq> -1 then lift (fail (Errorf ''protocol error: expected final -1''))
       else (\<lambda>s. Some (Inr \<lparr>st_Read = word_of_nat (nread s),
               st_Written = word_of_int (BytesWritten (below cwr (tx s))),
               st_Size = totalSize\<rparr>, s))))))"

definition sender_Do ::
  "'r send_env \<Rightarrow> list_env \<Rightarrow> Options \<Rightarrow> (SenderFile list \<Rightarrow> SenderFile list) \<Rightarrow> nat \<Rightarrow> nat \<Rightarrow>
   net_writer CountingWriter \<Rightarrow> bytes list \<Rightarrow> filterRuleList \<Rightarrow> (transfer, TransferStats) run" where
  "sender_Do E L opt srt fuel rounds cwr paths excl =
     rbind (lift (SendFileList L opt paths excl)) (\<lambda>fileList.
     rbind (SendFiles E fuel rounds (srt (Files fileList))) (\<lambda>_.
     send_stats cwr (TotalSize fileList)))"

section \<open>ClientRun\<close>

definition ProtocolVersion :: i32 where "ProtocolVersion = 27"
definition sessionChecksumSeed :: i32 where "sessionChecksumSeed = 666"

definition handshake :: "bool \<Rightarrow> ('z conn_scheme, unit) io" where
  "handshake negotiate =
     ebind (if negotiate then ebind ReadInt32 (\<lambda>remoteProtocol. WriteInt32 ProtocolVersion) else ret ()) (\<lambda>_.
     WriteInt32 sessionChecksumSeed)"

text \<open>The options a receiver takes over.\<close>

definition opts_of :: "Options \<Rightarrow> TransferOpts" where
  "opts_of opt = zero_TransferOpts\<lparr>
     DryRun := o_DryRun opt,
     DeleteMode := o_DeleteMode opt,
     PreserveGid := o_PreserveGid opt,
     PreserveUid := o_PreserveUid opt,
     PreserveLinks := o_PreserveLinks opt,
     PreservePerms := o_PreservePerms opt,
     PreserveDevices := o_PreserveDevices opt,
     PreserveSpecials := o_PreserveSpecials opt,
     PreserveTimes := PreserveMTimes opt,
     IgnoreTimes := o_IgnoreTimes opt,
     SizeOnly := o_SizeOnly opt,
     AlwaysChecksum := o_AlwaysChecksum opt\<rparr>"

text \<open>The deferred error message; a panic leaves \<open>err\<close> as it is, so none is sent for it.\<close>

definition last_words :: "(err \<Rightarrow> bytes) \<Rightarrow> err \<Rightarrow> net_writer CountingWriter \<Rightarrow> net_writer CountingWriter" where
  "last_words errmsg e w =
     (case e of
        Panic _ \<Rightarrow> w
      | _ \<Rightarrow> snd (MultiplexWriter_WriteMsg (CountingWriter_Write net_Write) MsgError w (errmsg e)))"

definition fresh_cwr :: "bytes list \<Rightarrow> net_writer CountingWriter" where
  "fresh_cwr log = snd (write_all (CountingWriter_Write net_Write)
     (snd (CounterPair () \<lparr>wire = [], space = None\<rparr>)) log)"

text \<open>
  A session on a transport that accepts every write: from the peer's bytes to the result and the
  bytes sent.  The handshake is plain, everything after it goes through the multiplexed writer.
\<close>

definition sender_ClientRun ::
  "(err \<Rightarrow> bytes) \<Rightarrow> 'r send_env \<Rightarrow> list_env \<Rightarrow> (SenderFile list \<Rightarrow> SenderFile list) \<Rightarrow> nat \<Rightarrow> nat \<Rightarrow>
   Options \<Rightarrow> bytes list \<Rightarrow> bool \<Rightarrow> bytes \<Rightarrow> ((err + TransferStats) \<times> bytes) option" where
  "sender_ClientRun errmsg E L srt fuel rounds opt paths negotiate inp =
     (case handshake negotiate \<lparr>rx = inp, nread = 0, tx = [], room = None, lastMatch = 0\<rparr> of
        (Inl e, s) \<Rightarrow> Some (Inl e, wire (W (fresh_cwr (tx s))))
      | (Inr _, s) \<Rightarrow>
          (let cwr = fresh_cwr (tx s);
               E' = E\<lparr>e_seed := sessionChecksumSeed, e_dry := o_DryRun opt\<rparr>
           in case rbind (lift (RecvFilterList [])) (sender_Do E' L opt srt fuel rounds cwr paths)
                     (s\<lparr>tx := []\<rparr>) of
                None \<Rightarrow> None
              | Some (Inl e, t) \<Rightarrow> Some (Inl e, wire (W (last_words errmsg e (below cwr (tx t)))))
              | Some (Inr stats, t) \<Rightarrow> Some (Inr stats, wire (W (below cwr (tx t))))))"

text \<open>
  The receiver's: an error of \<open>RecvFilterList\<close> is bound to a variable of the inner block, so the
  deferred function sees none.
\<close>

definition receiver_ClientRun ::
  "(err \<Rightarrow> bytes) \<Rightarrow> bool \<Rightarrow> recv_env \<Rightarrow> (ReceiverFile list \<Rightarrow> ReceiverFile list) \<Rightarrow> Options \<Rightarrow> bool \<Rightarrow> bytes \<Rightarrow>
   (err + unit) \<times> bytes \<times> recvr" where
  "receiver_ClientRun errmsg gen_first E srt opt negotiate inp =
     (let start = \<lparr>rx = inp, nread = 0, tx = [], room = None, piped = [], stored = [], IOErrors = 0, removed = []\<rparr>;
          E' = E\<lparr>r_seed := sessionChecksumSeed, r_opts := opts_of opt, r_dest := [slash]\<rparr>
      in case handshake negotiate start of
           (Inl e, s) \<Rightarrow> (Inl e, wire (W (fresh_cwr (tx s))), s)
         | (Inr _, s) \<Rightarrow>
             (let cwr = fresh_cwr (tx s)
              in case (if o_DeleteMode opt then ebind (RecvFilterList []) (\<lambda>_. ret ()) else ret ()) (s\<lparr>tx := []\<rparr>) of
                   (Inl e, t) \<Rightarrow> (Inl e, wire (W (below cwr (tx t))), t)
                 | (Inr _, t) \<Rightarrow>
                     (case ebind (ReceiveFileList srt (r_opts E')) (\<lambda>fileList.
                             receiver_Do gen_first E' fileList True) t of
                        (Inl e, u) \<Rightarrow> (Inl e, wire (W (last_words errmsg e (below cwr (tx u)))), u)
                      | (Inr _, u) \<Rightarrow> (Inr (), wire (W (below cwr (tx u))), u))))"

end
