(* ===== verification/SendSpec.thy ===== *)
theory SendSpec
  imports SendFiles
begin

text \<open>
  The sender as a server: to every request, an index and the signature of the receiver's copy if
  it has one, it answers with the index, a head, tokens that spell the file, the end mark and the
  strong checksum of the whole file.
\<close>

section \<open>Requests\<close>

type_synonym request = "i32 \<times> bytes option"

fun req_head :: "(bytes \<Rightarrow> bytes) \<Rightarrow> i32 \<Rightarrow> bytes option \<Rightarrow> SumHead" where
  "req_head md4 seed None = zero_SumHead"
| "req_head md4 seed (Some b) = signature md4 seed b"

fun enc_basis :: "(bytes \<Rightarrow> bytes) \<Rightarrow> i32 \<Rightarrow> bytes option \<Rightarrow> bytes" where
  "enc_basis md4 seed None = enc_head zero_SumHead"
| "enc_basis md4 seed (Some b) =
     enc_head (SumSizesSqroot (int (length b))) @ enc_sums md4 seed (blocks (block_len (length b)) b)"

fun basis_ok :: "bytes option \<Rightarrow> bool" where
  "basis_ok None = True"
| "basis_ok (Some b) = (length b < 2 ^ 52)"

lemma zero_head_ok: "head_ok zero_SumHead"
  by (simp add: head_ok_def zero_SumHead_def)

lemma receiveSums_basis:
  assumes md4: "\<forall>x. length (md4 x) = 16" and "basis_ok basis" and rx: "rx c = enc_basis md4 seed basis @ q"
  shows "\<exists>k. receiveSums c = (Inr (req_head md4 seed basis), advance k c) \<and> drop k (rx c) = q"
proof (cases basis)
  case None
  with rx have "rx c = enc_head zero_SumHead @ q" by simp
  from ReadFrom_enc_head [OF this zero_head_ok] have "receiveSums c = (Inr zero_SumHead, advance 16 c)"
    by (simp add: receiveSums_def ebind_def) (simp add: zero_SumHead_def)
  with None rx show ?thesis by (intro exI [of _ 16]) simp
next
  case (Some b)
  with receiveSums_signature [of md4 b c seed q] assms show ?thesis by simp
qed

lemma signature_ready:
  assumes md4: "\<forall>x. length (md4 x) = 16" and b: "length b < 2 ^ 52" "b \<noteq> []"
  shows "head_ready (signature md4 seed b)"
proof -
  let ?B = "block_len (length b)" and ?bs = "blocks (block_len (length b)) b"
  note f = SumSizesSqroot_fields [OF b(1)]
  have "1 \<le> Len sb \<and> Len sb \<le> int ?B \<and> length (Sum2 sb) = 16"
    if sb: "sb \<in> set (signature_from md4 seed 0 0 ?bs)" for sb
  proof -
    obtain j where j: "j < length ?bs" "sb = signature_from md4 seed 0 0 ?bs ! j"
      using sb by (auto simp: in_set_conv_nth)
    have "0 < length (?bs ! j)" "length (?bs ! j) \<le> ?B"
      using blocks_last_len [OF block_len_pos(1) j(1)]
        less_imp_le [OF mod_less_divisor [OF block_len_pos(1) [of "length b"], of "length b"]] by auto
    with nth_signature_from [OF j(1), of md4 seed 0 0] j(2) md4 show ?thesis by (simp add: Checksum2_def Suc_le_eq)
  qed
  moreover have "signature_from md4 seed 0 0 ?bs \<noteq> []" using b(2) by (simp add: blocks_Cons)
  ultimately show ?thesis
    using f block_len_bound [OF b(1)]
    by (simp add: head_ready_def signature_def Let_def length_blocks Suc_le_eq)
qed

lemma signature_no_sums: "Sums (signature md4 seed b) = [] \<longleftrightarrow> b = []"
proof -
  have "length (blocks (block_len (length b)) b) = 0 \<longleftrightarrow> b = []"
    by (cases "b = []") (simp_all add: blocks_Cons)
  then show ?thesis by (simp add: signature_def Let_def flip: length_0_conv)
qed

lemma req_head_ok:
  assumes "basis_ok basis" shows "head_ok (req_head md4 seed basis)"
proof (cases basis)
  case (Some b)
  with SumSizesSqroot_ok [of "length b"] assms show ?thesis by (simp add: head_ok_def signature_def Let_def)
qed (simp add: zero_head_ok)

lemma enc_head_signature: "enc_head (signature md4 seed b) = enc_head (SumSizesSqroot (int (length b)))"
  by (simp add: enc_head_def signature_def Let_def)

section \<open>Answers\<close>

definition answered :: "(bytes \<Rightarrow> bytes) \<Rightarrow> i32 \<Rightarrow> i32 \<Rightarrow> bytes option \<Rightarrow> bytes \<Rightarrow> bytes \<Rightarrow> bool" where
  "answered md4 seed idx basis C out \<longleftrightarrow>
     (\<exists>sh ts. head_ok sh \<and> (Sums (req_head md4 seed basis) \<noteq> [] \<longrightarrow> sh = req_head md4 seed basis) \<and>
        spelled md4 seed (req_head md4 seed basis) ts C \<and>
        out = le_enc 4 idx @ enc_head sh @ enc_tokens ts @ enc_end @ md4 (le_enc 4 seed @ C))"

lemma spelled_literals:
  "\<forall>b \<in> set bs. b \<noteq> [] \<and> int (length b) \<le> chunkSize \<Longrightarrow> spelled md4 seed head (map Lit bs) (concat bs)"
  unfolding spelled_def by (intro exI [of _ bs]) (auto simp: list_all2_conv_all_nth)

text \<open>
  The file \<open>fl\<close> of the caller holds \<open>C\<close>, and the sender can deliver it: through the caller's file
  system when no signature came, else through \<open>os.OpenFile\<close> and the window.
\<close>

definition deliverable :: "bytes \<Rightarrow> SumHead \<Rightarrow> bool" where
  "deliverable C head \<longleftrightarrow>
     int (length C) mod 1024 = 0 \<or> int (length C) \<le> max (3 * sint (BlockLength head)) 262144"

context byte_reader
begin

definition servable :: "'r send_env \<Rightarrow> SenderFile \<Rightarrow> bytes \<Rightarrow> SumHead \<Rightarrow> bool" where
  "servable E fl C head \<longleftrightarrow>
     e_rd E = rd \<and> length C < 2 ^ 52 \<and>
     (if Sums head = []
      then (\<exists>fi r. e_read E fl = Inr (fi, r) \<and> fiSize fi = int (length C) \<and> wf r \<and> pending r = C)
      else C \<noteq> [] \<and> deliverable C head \<and>
        (\<exists>f. e_open E (Path fl) = Inr (f, int (length C)) \<and> content f = C \<and> \<not> is_dir f \<and> fpos f = 0))"

lemma serve_answers:
  assumes md4: "\<forall>x. length (e_md4 E x) = 16" and srt: "slice_sort (e_sort E) tag"
    and idx: "0 \<le> sint idx" "sint idx < int (length files)" and basis: "basis_ok basis"
    and sv: "servable E (files ! nat (sint idx)) C (req_head (e_md4 E) (e_seed E) basis)"
    and c: "room c = None" and fuel: "length C < fuel"
  shows "\<exists>out d. serve E fuel files idx (req_head (e_md4 E) (e_seed E) basis) c = Some (Inr (), d) \<and>
    wrote c out d \<and> answered (e_md4 E) (e_seed E) idx basis C out"
proof -
  let ?h = "req_head (e_md4 E) (e_seed E) basis" and ?fl = "files ! nat (sint idx)"
  let ?c = "c\<lparr>lastMatch := 0\<rparr>"
  have fa: "Files_at files idx = ret ?fl" using idx by (simp add: Files_at_def)
  have wc: "wrote c [] ?c" using c by (simp add: wrote_def sent_def)
  show ?thesis
  proof (cases "Sums ?h = []")
    case True
    then obtain fi r where r: "e_read E ?fl = Inr (fi, r)" "fiSize fi = int (length C)" "wf r" "pending r = C"
      "e_rd E = rd" "length C < 2 ^ 52" using sv by (auto simp: servable_def)
    obtain bs d where d: "sendFile (e_md4 E) (e_seed E) (e_read E) rd fuel idx ?fl ?c = Some (Inr (), d)"
      "wrote ?c (le_enc 4 idx @ enc_head (SumSizesSqroot (int (length C))) @ enc_tokens (map Lit bs) @ enc_end @
             e_md4 E (le_enc 4 (e_seed E) @ C)) d" "concat bs = C"
      "\<forall>b \<in> set bs. b \<noteq> [] \<and> int (length b) \<le> chunkSize"
      using sendFile_sends [of "e_read E" ?fl fi r ?c fuel "e_md4 E" "e_seed E" idx] c fuel r by auto
    have "serve E fuel files idx ?h c = Some (Inr (), d)"
      using True d(1) r(5) by (simp add: serve_def Let_def fa)
    moreover note wrote_trans [OF wc d(2)]
    moreover have "spelled (e_md4 E) (e_seed E) ?h (map Lit bs) C"
      using spelled_literals [OF d(4)] d(3) by simp
    ultimately show ?thesis using True SumSizesSqroot_ok [OF r(6)] unfolding answered_def by force
  next
    case False
    then obtain b where b: "basis = Some b" "b \<noteq> []" "length b < 2 ^ 52"
      using basis by (cases basis) (auto simp: zero_SumHead_def signature_no_sums)
    have H: "head_ready ?h" using signature_ready [OF md4 b(3,2)] b(1) by simp
    have T: "targets_ok ?h (build_targets (e_sort E) ?h)" by (rule build_targets_ok [OF srt])
    obtain f where f: "e_open E (Path ?fl) = Inr (f, int (length C))" "content f = C" "\<not> is_dir f" "fpos f = 0"
      and C: "C \<noteq> []" "deliverable C ?h" using sv False by (auto simp: servable_def)
    obtain ts d where d: "hashSearch (e_md4 E) (e_seed E) (e_open E) fuel (build_targets (e_sort E) ?h)
        (build_tagTable (build_targets (e_sort E) ?h)) ?h idx ?fl ?c = Some (Inr (), d)"
      "wrote ?c (le_enc 4 idx @ enc_head ?h @ enc_tokens ts @ enc_end @ e_md4 E (le_enc 4 (e_seed E) @ C)) d"
      "spelled (e_md4 E) (e_seed E) ?h ts C"
      using hashSearch_sends [of ?h "build_targets (e_sort E) ?h" "e_md4 E" "e_open E" ?fl f C ?c fuel "e_seed E" idx]
        T H md4 f C c fuel by (auto simp: deliverable_def)
    have "serve E fuel files idx ?h c = Some (Inr (), d)"
      using False d(1) by (simp add: serve_def Let_def fa)
    moreover note wrote_trans [OF wc d(2)]
    ultimately show ?thesis using d(3) req_head_ok [OF basis] unfolding answered_def by force
  qed
qed

end

section \<open>A session\<close>

fun enc_req :: "(bytes \<Rightarrow> bytes) \<Rightarrow> i32 \<Rightarrow> request \<Rightarrow> bytes" where
  "enc_req md4 seed (idx, basis) = le_enc 4 idx @ enc_basis md4 seed basis"

text \<open>From \<open>c\<close> to \<open>d\<close> the bytes \<open>p\<close> were sent, and \<open>q\<close> is what is left to read.\<close>

definition talked :: "'z conn_scheme \<Rightarrow> bytes \<Rightarrow> bytes \<Rightarrow> 'z conn_scheme \<Rightarrow> bool" where
  "talked c p q d \<longleftrightarrow> room c = None \<and> room d = None \<and> sent d = sent c @ p \<and> rx d = q"

lemma talked_trans: "talked c p q d \<Longrightarrow> talked d p' q' e \<Longrightarrow> talked c (p @ p') q' e"
  by (simp add: talked_def)

lemma talked_advance: "room c = None \<Longrightarrow> drop k (rx c) = q \<Longrightarrow> talked c [] q (advance k c)"
  by (simp add: talked_def)

lemma talked_wrote: "wrote c p d \<Longrightarrow> rx c = q \<Longrightarrow> talked c p q d"
  by (simp add: talked_def wrote_def)

context byte_reader
begin

definition request_ok :: "'r send_env \<Rightarrow> SenderFile list \<Rightarrow> (i32 \<Rightarrow> bytes) \<Rightarrow> nat \<Rightarrow> request \<Rightarrow> bool" where
  "request_ok E files cont fuel r \<longleftrightarrow>
     (case r of (idx, basis) \<Rightarrow>
        0 \<le> sint idx \<and> sint idx < int (length files) \<and> basis_ok basis \<and>
        servable E (files ! nat (sint idx)) (cont idx) (req_head (e_md4 E) (e_seed E) basis) \<and>
        length (cont idx) < fuel)"

lemma SendFiles_step_request:
  assumes md4: "\<forall>x. length (e_md4 E x) = 16" and srt: "slice_sort (e_sort E) tag"
    and dry: "\<not> e_dry E" and ok: "request_ok E files cont fuel (idx, basis)"
    and c: "room c = None" "rx c = enc_req (e_md4 E) (e_seed E) (idx, basis) @ q"
  shows "\<exists>out d. SendFiles_step E fuel files phase c = Some (Inr (Some phase), d) \<and>
    talked c out q d \<and> answered (e_md4 E) (e_seed E) idx basis (cont idx) out"
proof -
  let ?h = "req_head (e_md4 E) (e_seed E) basis"
  have ne: "idx \<noteq> -1" using ok by (auto simp: request_ok_def)
  have rx: "rx c = le_enc 4 idx @ enc_basis (e_md4 E) (e_seed E) basis @ q" using c(2) by simp
  note r1 = ReadInt32_enc [OF rx]
  have rx4: "rx (advance 4 c) = enc_basis (e_md4 E) (e_seed E) basis @ q" using rx by simp
  have "basis_ok basis" using ok by (simp add: request_ok_def)
  from receiveSums_basis [OF md4 this rx4] obtain k where k: "receiveSums (advance 4 c) = (Inr ?h, advance k (advance 4 c))"
    "drop k (rx (advance 4 c)) = q" by blast
  let ?c = "advance k (advance 4 c)"
  obtain out d where d: "serve E fuel files idx ?h ?c = Some (Inr (), d)" "wrote ?c out d"
    "answered (e_md4 E) (e_seed E) idx basis (cont idx) out"
    using serve_answers [OF md4 srt, of idx files basis "cont idx" ?c fuel] ok c(1)
    by (auto simp: request_ok_def)
  have "SendFiles_step E fuel files phase c = Some (Inr (Some phase), d)"
    using ne dry r1 k(1) d(1) by (simp add: SendFiles_step_def skip_PathError_def)
  moreover have "talked c out q d"
    using talked_trans [OF talked_advance [OF _ k(2)] talked_wrote [OF d(2), of q]]
      talked_advance [of c "4 + k" q] c k(2) d(2) by (simp add: talked_def wrote_def)
  ultimately show ?thesis using d(3) by blast
qed

lemma SendFiles_step_end:
  assumes "room c = None" and "rx c = le_enc 4 (-1 :: i32) @ q"
  shows "\<exists>d. SendFiles_step E fuel files 0 c = Some (Inr (Some 1), d) \<and> talked c (le_enc 4 (-1 :: i32)) q d"
    and "\<exists>d. SendFiles_step E fuel files 1 c = Some (Inr None, d) \<and> talked c [] q d"
  using ReadInt32_enc [OF assms(2)] assms
  by (auto simp: SendFiles_step_def WriteInt32_ok lift_def talked_def)

lemma SendFiles_requests:
  assumes md4: "\<forall>x. length (e_md4 E x) = 16" and srt: "slice_sort (e_sort E) tag"
    and dry: "\<not> e_dry E"
  shows "\<forall>r \<in> set reqs. request_ok E files cont fuel r \<Longrightarrow> room c = None \<Longrightarrow>
    rx c = concat (map (enc_req (e_md4 E) (e_seed E)) reqs) @ q \<Longrightarrow>
    \<exists>outs d. SendFiles_loop E fuel files (length reqs + n) phase c = SendFiles_loop E fuel files n phase d \<and>
      talked c (concat outs) q d \<and>
      list_all2 (\<lambda>r out. answered (e_md4 E) (e_seed E) (fst r) (snd r) (cont (fst r)) out) reqs outs"
proof (induction reqs arbitrary: c)
  case Nil
  then show ?case by (auto simp: talked_def)
next
  case (Cons r reqs)
  obtain idx basis where r: "r = (idx, basis)" by (cases r)
  let ?q = "concat (map (enc_req (e_md4 E) (e_seed E)) reqs) @ q"
  have "rx c = enc_req (e_md4 E) (e_seed E) (idx, basis) @ ?q" using Cons.prems(3) r by simp
  then obtain out d where d: "SendFiles_step E fuel files phase c = Some (Inr (Some phase), d)"
    "talked c out ?q d" "answered (e_md4 E) (e_seed E) idx basis (cont idx) out"
    using SendFiles_step_request [OF md4 srt dry] Cons.prems(1,2) r by (metis list.set_intros(1))
  have rd: "room d = None" "rx d = ?q" using d(2) by (auto simp: talked_def)
  have "\<forall>r \<in> set reqs. request_ok E files cont fuel r" using Cons.prems(1) by simp
  from Cons.IH [OF this rd] obtain outs e where e:
    "SendFiles_loop E fuel files (length reqs + n) phase d = SendFiles_loop E fuel files n phase e"
    "talked d (concat outs) q e"
    "list_all2 (\<lambda>r out. answered (e_md4 E) (e_seed E) (fst r) (snd r) (cont (fst r)) out) reqs outs"
    by blast
  have "SendFiles_loop E fuel files (length (r # reqs) + n) phase c = SendFiles_loop E fuel files n phase e"
    using d(1) e(1) by (simp add: rbind_Some)
  with talked_trans [OF d(2) e(2)] d(3) e(3) r show ?case
    by (intro exI [of _ "out # outs"] exI [of _ e]) simp
qed

text \<open>The whole conversation: every request answered in order, then the two phase marks.\<close>

lemma SendFiles_answers:
  assumes md4: "\<forall>x. length (e_md4 E x) = 16" and srt: "slice_sort (e_sort E) tag"
    and dry: "\<not> e_dry E" and ok: "\<forall>r \<in> set reqs. request_ok E files cont fuel r"
    and c: "room c = None" "rx c = concat (map (enc_req (e_md4 E) (e_seed E)) reqs) @
      le_enc 4 (-1 :: i32) @ le_enc 4 (-1 :: i32) @ q"
    and rounds: "length reqs + 2 \<le> rounds"
  shows "\<exists>outs d. SendFiles E fuel rounds files c = Some (Inr (), d) \<and>
    talked c (concat outs @ le_enc 4 (-1 :: i32) @ le_enc 4 (-1 :: i32)) q d \<and>
    list_all2 (\<lambda>r out. answered (e_md4 E) (e_seed E) (fst r) (snd r) (cont (fst r)) out) reqs outs"
proof -
  obtain n where "rounds = length reqs + 2 + n" using rounds le_Suc_ex by blast
  then have n: "rounds = length reqs + Suc (Suc n)" by simp
  let ?m = "le_enc 4 (-1 :: i32)"
  obtain outs d where d: "SendFiles_loop E fuel files rounds 0 c = SendFiles_loop E fuel files (Suc (Suc n)) 0 d"
    "talked c (concat outs) (?m @ ?m @ q) d"
    "list_all2 (\<lambda>r out. answered (e_md4 E) (e_seed E) (fst r) (snd r) (cont (fst r)) out) reqs outs"
    using SendFiles_requests [OF md4 srt dry ok c, of "Suc (Suc n)" 0] n by auto
  obtain d1 where d1: "SendFiles_step E fuel files 0 d = Some (Inr (Some 1), d1)" "talked d ?m (?m @ q) d1"
    using SendFiles_step_end(1) [of d "?m @ q" E fuel files] d(2) by (auto simp: talked_def)
  obtain d2 where d2: "SendFiles_step E fuel files 1 d1 = Some (Inr None, d2)" "talked d1 [] q d2"
    using SendFiles_step_end(2) [of d1 q E fuel files] d1(2) by (auto simp: talked_def)
  have "SendFiles_loop E fuel files rounds 0 c = Some (Inr (), d2)"
    using d(1) d1(1) d2(1) by (simp add: rbind_Some lift_def)
  then have "SendFiles E fuel rounds files c = Some (Inr (), emit ?m d2)"
    using d2(2) by (simp add: SendFiles_def rbind_Some lift_def WriteInt32_ok talked_def)
  moreover have "talked c (concat outs @ ?m @ ?m) q (emit ?m d2)"
    using talked_trans [OF talked_trans [OF talked_trans [OF d(2) d1(2)] d2(2)]
      talked_wrote [OF wrote_emit [of d2 ?m]]] d2(2) by (simp add: talked_def)
  ultimately show ?thesis using d(3) by blast
qed

end

section \<open>What the sender promises\<close>

text \<open>
  C12: the lookup of hashSearch through tag table, candidates and lazily computed strong checksum finds
  a block exactly if some block of the signature has the window's length, fast and strong checksum.
\<close>
theorem lookup_decides:
  assumes "slice_sort srt tag" and "head_ready head" and "\<forall>x. length (md4 x) = 16"
    and "0 \<le> offset" and "offset \<le> int (length C)" and "ms_total C (smap s)" and "room s = None"
  shows "\<exists>r t. (case build_tagTable (build_targets srt head) (Tag (Checksum1 (window_at head C offset))) of
        None \<Rightarrow> ret None
      | Some j \<Rightarrow> find_match md4 seed head (build_targets srt head) (int (length C)) offset
          (Tag (Checksum1 (window_at head C offset))) (Checksum1 (window_at head C offset)) None j) s = (Inr r, t) \<and>
    (case r of
       None \<Rightarrow> \<forall>i. \<not> block_match md4 seed head i (window_at head C offset)
     | Some i \<Rightarrow> 0 \<le> i \<and> block_match md4 seed head (nat i) (window_at head C offset))"
proof -
  have T: "targets_ok head (build_targets srt head)" by (rule build_targets_ok [OF assms(1)])
  from lookup_correct [OF T assms(2-5) refl assms(6,7), of seed] show ?thesis
    by (fastforce split: option.split)
qed

text \<open>
  C6: the whole search: for a signature of the expected shape and a file the window can deliver, with
  more fuel than bytes, hashSearch returns, and what it wrote is the index, the head, tokens that spell
  the file out of literals and matching blocks, the end mark and the strong checksum of the file.
\<close>
theorem search_delivers:
  assumes "slice_sort srt tag" and "head_ready head" and "\<forall>x. length (md4 x) = 16"
    and "osopen (Path fl) = Inr (f, int (length C))" and "content f = C" and "\<not> is_dir f" and "fpos f = 0"
    and "deliverable C head" and "C \<noteq> []" and "room c = None" and "lastMatch c = 0" and "length C < fuel"
  shows "\<exists>ts d. hashSearch md4 seed osopen fuel (build_targets srt head) (build_tagTable (build_targets srt head))
        head fileIndex fl c = Some (Inr (), d) \<and>
    wrote c (le_enc 4 fileIndex @ enc_head head @ enc_tokens ts @ enc_end @ md4 (le_enc 4 seed @ C)) d \<and>
    spelled md4 seed head ts C"
  using assms(8)
  by (intro hashSearch_sends [where f = f] build_targets_ok [OF assms(1)] assms) (simp add: deliverable_def)

text \<open>
  C13: sendFile over a caller's file that arrives in arbitrary segments: index, head of the file's size,
  the content as literals of at most 256 KiB, the end mark and the checksum of seed and content.
\<close>
theorem sendFile_delivers:
  assumes "fs_read fl = Inr (fi, ss)" and "[] \<notin> set ss" and "room c = None" and "length (concat ss) < fuel"
  shows "\<exists>bs d. sendFile md4 seed fs_read net_Read fuel idx fl c = Some (Inr (), d) \<and>
    wrote c (le_enc 4 idx @ enc_head (SumSizesSqroot (fiSize fi)) @ enc_tokens (map Lit bs) @ enc_end @
             md4 (le_enc 4 seed @ concat ss)) d \<and>
    concat bs = concat ss \<and> (\<forall>b \<in> set bs. b \<noteq> [] \<and> int (length b) \<le> chunkSize)"
  using assms by (rule segs.sendFile_sends)

theorem sendFile_delivers_witness:
  "\<exists>bs d. sendFile (\<lambda>x. replicate 16 7) 666 (\<lambda>fl. Inr (\<lparr>fiName = [97], fiSize = 5, fiMode = 0, fiModTime = 0\<rparr>, [[1, 2], [3, 4, 5]]))
      net_Read 6 0 \<lparr>Path = [47], WPath = [97], Regular = True\<rparr>
      \<lparr>rx = [], nread = 0, tx = [], room = None\<rparr> = Some (Inr (), d) \<and> concat bs = [1, 2, 3, 4, 5 :: byte]"
  using sendFile_delivers [of "\<lambda>fl. Inr (\<lparr>fiName = [97], fiSize = 5, fiMode = 0, fiModTime = 0\<rparr>, [[1, 2], [3, 4, 5]])"
      "\<lparr>Path = [47], WPath = [97], Regular = True\<rparr>" "\<lparr>fiName = [97], fiSize = 5, fiMode = 0, fiModTime = 0\<rparr>"
      "[[1, 2], [3, 4, 5]]" "\<lparr>rx = [], nread = 0, tx = [], room = None\<rparr>" 6 "\<lambda>x. replicate 16 7" 666 0] by auto

text \<open>The same requirements as \<open>servable\<close> and \<open>request_ok\<close>, for a file system that delivers segments.\<close>

definition net_servable :: "bytes list send_env \<Rightarrow> SenderFile \<Rightarrow> bytes \<Rightarrow> SumHead \<Rightarrow> bool" where
  "net_servable E fl C head \<longleftrightarrow>
     e_rd E = net_Read \<and> length C < 2 ^ 52 \<and>
     (if Sums head = []
      then (\<exists>fi ss. e_read E fl = Inr (fi, ss) \<and> fiSize fi = int (length C) \<and> [] \<notin> set ss \<and> concat ss = C)
      else C \<noteq> [] \<and> deliverable C head \<and>
        (\<exists>f. e_open E (Path fl) = Inr (f, int (length C)) \<and> content f = C \<and> \<not> is_dir f \<and> fpos f = 0))"

lemma segs_servable: "segs.servable = net_servable"
  by (intro ext) (simp add: segs.servable_def net_servable_def)


text \<open>The setting of the witnesses: a trivial checksum, one file, a receiver's copy of three bytes.\<close>

definition demo_md4 :: "bytes \<Rightarrow> bytes" where "demo_md4 x = take 16 (x @ replicate 16 0)"

lemma length_demo_md4: "length (demo_md4 x) = 16"
  by (simp add: demo_md4_def)

definition demo_file :: osfile where
  "demo_file = \<lparr>content = [9, 1, 2, 3], fpos = 0, is_dir = False, rdmax = 1\<rparr>"

definition demo_env :: "bytes list send_env" where
  "demo_env = \<lparr>e_md4 = demo_md4, e_seed = 666,
     e_read = (\<lambda>fl. Inr (\<lparr>fiName = WPath fl, fiSize = 4, fiMode = 0, fiModTime = 0\<rparr>, [[9], [1, 2, 3]])),
     e_rd = net_Read, e_open = (\<lambda>p. Inr (demo_file, 4)), e_sort = sort_key tag, e_dry = False\<rparr>"

definition demo_entry :: SenderFile where
  "demo_entry = \<lparr>Path = [97], WPath = [97], Regular = True\<rparr>"

definition demo_conn :: transfer where
  "demo_conn = \<lparr>rx = [], nread = 0, tx = [], room = None, lastMatch = 0\<rparr>"

lemma demo_deliverable: "deliverable [9, 1, 2, 3] head"
  by (simp add: deliverable_def)

lemma demo_ready: "head_ready (signature demo_md4 666 [1, 2, 3])"
  by (rule signature_ready) (simp_all add: length_demo_md4)

lemma demo_servable: "net_servable demo_env demo_entry [9, 1, 2, 3] head"
  by (auto simp: net_servable_def demo_env_def demo_file_def demo_deliverable)

theorem lookup_decides_witness:
  "\<exists>r t. (case build_tagTable (build_targets (sort_key tag) (signature demo_md4 666 [1, 2, 3]))
        (Tag (Checksum1 (window_at (signature demo_md4 666 [1, 2, 3]) [1, 2, 3] 0))) of
        None \<Rightarrow> ret None
      | Some j \<Rightarrow> find_match demo_md4 666 (signature demo_md4 666 [1, 2, 3])
          (build_targets (sort_key tag) (signature demo_md4 666 [1, 2, 3])) (int (length [1, 2, 3 :: byte])) 0
          (Tag (Checksum1 (window_at (signature demo_md4 666 [1, 2, 3]) [1, 2, 3] 0)))
          (Checksum1 (window_at (signature demo_md4 666 [1, 2, 3]) [1, 2, 3] 0)) None j)
      \<lparr>rx = [], nread = 0, tx = [], room = None, lastMatch = 0, hsum = [],
       smap = mapFile \<lparr>content = [1, 2, 3], fpos = 0, is_dir = False, rdmax = 0\<rparr> (int (length [1, 2, 3 :: byte])) 262144 700\<rparr>
      = (Inr r, t) \<and>
    (case r of
       None \<Rightarrow> \<forall>i. \<not> block_match demo_md4 666 (signature demo_md4 666 [1, 2, 3]) i
                 (window_at (signature demo_md4 666 [1, 2, 3]) [1, 2, 3] 0)
     | Some i \<Rightarrow> 0 \<le> i \<and> block_match demo_md4 666 (signature demo_md4 666 [1, 2, 3]) (nat i)
                 (window_at (signature demo_md4 666 [1, 2, 3]) [1, 2, 3] 0))"
proof -
  let ?f = "\<lparr>content = [1, 2, 3], fpos = 0, is_dir = False, rdmax = 0\<rparr> :: osfile"
  let ?m = "mapFile ?f (int (length [1, 2, 3 :: byte])) 262144 700"
  have d: "0 < defWindowSize ?m" "3 \<le> defWindowSize ?m"
    by (simp_all add: mapFile_def Let_def alignedLength_div to_int32_id)
  have "ms_ok [1, 2, 3] ?m" by (rule ms_ok_mapFile) (use d in simp_all)
  then have ok: "ms_total [1, 2, 3] ?m" using d by (simp add: ms_total_def)
  show ?thesis
    by (rule lookup_decides) (use ok key_sort.slice_sort_axioms demo_ready length_demo_md4 in simp_all)
qed

theorem search_delivers_witness:
  "\<exists>ts d. hashSearch demo_md4 666 (e_open demo_env) 5 (build_targets (sort_key tag) (signature demo_md4 666 [1, 2, 3]))
      (build_tagTable (build_targets (sort_key tag) (signature demo_md4 666 [1, 2, 3])))
      (signature demo_md4 666 [1, 2, 3]) 0 demo_entry demo_conn = Some (Inr (), d) \<and>
    wrote demo_conn (le_enc 4 (0 :: i32) @ enc_head (signature demo_md4 666 [1, 2, 3]) @ enc_tokens ts @ enc_end @
      demo_md4 (le_enc 4 (666 :: i32) @ [9, 1, 2, 3])) d \<and>
    spelled demo_md4 666 (signature demo_md4 666 [1, 2, 3]) ts [9, 1, 2, 3]"
  by (rule search_delivers [where f = demo_file])
    (use key_sort.slice_sort_axioms demo_ready length_demo_md4 demo_deliverable in
      \<open>simp_all add: demo_env_def demo_file_def demo_conn_def\<close>)


end
