(* ===== verification/RecvSpec.thy ===== *)
theory RecvSpec
  imports RecvData SendSpec
begin

text \<open>
  What the receiver makes of a token stream: literals and block references become the bytes they
  stand for, \<open>Put\<close> is handed their concatenation, and the file is accepted only if its strong
  checksum is the one the peer sent.
\<close>

section \<open>The loop\<close>

definition copy_len :: "SumHead \<Rightarrow> nat \<Rightarrow> int" where
  "copy_len sh i =
     (if int i = sint (ChecksumCount sh) - 1 \<and> RemainderLength sh \<noteq> 0
      then sint (RemainderLength sh) else sint (BlockLength sh))"

fun stands_for :: "SumHead \<Rightarrow> bytes option \<Rightarrow> token \<Rightarrow> bytes \<Rightarrow> bool" where
  "stands_for sh localFile (Lit b) p = (p = b)"
| "stands_for sh localFile (Copy i) p =
     (\<exists>basis. localFile = Some basis \<and> 0 \<le> copy_len sh i \<and> 0 \<le> sint (BlockLength sh) \<and>
        int i * sint (BlockLength sh) + copy_len sh i \<le> int (length basis) \<and>
        p = sub (int i * sint (BlockLength sh)) (copy_len sh i) basis)"

lemma recv_loop_tokens:
  "list_all2 (stands_for sh localFile) ts ps \<Longrightarrow> list_all (token_ok n) ts \<Longrightarrow>
   rx s = enc_tokens ts @ enc_end @ q \<Longrightarrow>
   \<exists>k. recv_loop sh localFile h s = (Inr (h @ concat ps), (advance k s)\<lparr>piped := piped s @ concat ps\<rparr>) \<and>
     drop k (rx s) = q"
proof (induction arbitrary: h s rule: list_all2_induct)
  case Nil
  then have "rx s = enc_end @ q" by simp
  from recvToken_end [OF this] have "recv_loop sh localFile h s = (Inr h, advance 4 s)"
    by (subst recv_loop.simps) (simp add: ebind_def)
  with Nil show ?case by (intro exI [of _ 4]) (simp add: enc_end_def advance_def)
next
  case (Cons t ts p ps)
  let ?k = "length (enc_token t)" and ?s = "(advance (length (enc_token t)) s)\<lparr>piped := piped s @ p\<rparr>"
  have rx: "rx s = enc_token t @ enc_tokens ts @ enc_end @ q" using Cons.prems(2) by simp
  have "recv_loop sh localFile h s = recv_loop sh localFile (h @ p) ?s"
  proof (cases t)
    case (Lit b)
    have b: "b \<noteq> []" "int (length b) < 2 ^ 31"
      using Cons.prems(1) Lit chunkSize_pos by auto
    have z: "sint (word_of_int (int (length b)) :: i32) = int (length b)"
      using b(2) by (intro sint_word_of_int32) auto
    then have nz: "(word_of_int (int (length b)) :: i32) \<noteq> 0" using b(1) by auto
    have "recvToken s = (Inr (word_of_int (int (length b)), b), advance ?k s)"
      using recvToken_Lit [of s b] rx Cons.prems(1) unfolding Lit by simp
    with z nz b(1) Cons.hyps(1) Lit show ?thesis
      by (subst recv_loop.simps) (simp add: ebind_def pipe_Write_def advance_def)
  next
    case (Copy i)
    define w where "w = (word_of_int (- (int i + 1)) :: i32)"
    have i: "int i < 2 ^ 31" using Cons.prems(1) Copy by auto
    have w: "sint w = - (int i + 1)" unfolding w_def using i by (intro sint_word_of_int32) auto
    then have wn: "w \<noteq> 0" by auto
    have rt: "recvToken s = (Inr (w, []), advance 4 s)"
      using recvToken_Copy [of s i "enc_tokens ts @ enc_end @ q" n] rx Cons.prems(1) unfolding Copy w_def by simp
    obtain basis where b: "localFile = Some basis" "0 \<le> copy_len sh i"
      "int i * sint (BlockLength sh) + copy_len sh i \<le> int (length basis)"
      "p = sub (int i * sint (BlockLength sh)) (copy_len sh i) basis"
      using Cons.hyps(1) Copy by auto
    have at: "file_ReadAt basis (copy_len sh i) (int i * sint (BlockLength sh)) = Inr p"
      using b by (auto simp: file_ReadAt_def)
    have tl: "- (sint w + 1) = int i" by (simp add: w)
    show ?thesis
      using wn w b(1,2) at Copy
      by (subst recv_loop.simps)
        (simp add: ebind_def rt tl Let_def pipe_Write_def advance_def copy_len_def [symmetric])
  qed
  moreover have "rx ?s = enc_tokens ts @ enc_end @ q" using rx by simp
  ultimately obtain k where k: "recv_loop sh localFile h s =
      (Inr ((h @ p) @ concat ps), (advance k ?s)\<lparr>piped := piped ?s @ concat ps\<rparr>)" "drop k (rx ?s) = q"
    using Cons.IH [of ?s "h @ p"] Cons.prems(1) by auto
  show ?case
    using k by (intro exI [of _ "?k + k"]) (simp add: advance_def add.commute add.left_commute)
qed

section \<open>receiveData\<close>

lemma receiveData_accepts:
  assumes md4: "\<forall>x. length (r_md4 E x) = 16" and sh: "head_ok sh"
    and ts: "list_all2 (stands_for (sh\<lparr>Sums := []\<rparr>) localFile) ts ps" "list_all (token_ok n) ts"
    and rx: "rx s = enc_head sh @ enc_tokens ts @ enc_end @
      r_md4 E (le_enc 4 (r_seed E) @ concat ps) @ q"
    and lim: "r_limit E f = None"
  shows "\<exists>t. receiveData E f localFile s = (Inr (), t) \<and> rx t = q \<and> tx t = tx s \<and> room t = room s \<and>
    stored t = stored s @ [(f, concat ps, True)]"
proof -
  let ?m = "r_md4 E (le_enc 4 (r_seed E) @ concat ps)"
  let ?s1 = "(advance 16 s)\<lparr>piped := []\<rparr>"
  have r1: "ReadFrom s = (Inr (sh\<lparr>Sums := []\<rparr>), advance 16 s)" by (rule ReadFrom_enc_head [OF rx sh])
  have rx1: "rx ?s1 = enc_tokens ts @ enc_end @ ?m @ q" using rx by simp
  obtain k where k: "recv_loop (sh\<lparr>Sums := []\<rparr>) localFile (le_enc 4 (r_seed E)) ?s1 =
      (Inr (le_enc 4 (r_seed E) @ concat ps), (advance k ?s1)\<lparr>piped := concat ps\<rparr>)"
    "drop k (rx ?s1) = ?m @ q"
    using recv_loop_tokens [OF ts rx1] by auto
  define s2 where "s2 = put_done E f True ((advance k ?s1)\<lparr>piped := concat ps\<rparr>)"
  have rx2: "rx s2 = ?m @ q" using k(2) by (simp add: s2_def put_done_def)
  have r2: "ReadFull 16 s2 = (Inr ?m, advance 16 s2)" by (rule ReadFull_append [OF rx2]) (simp add: md4)
  have "receiveData E f localFile s = (Inr (), advance 16 s2)"
    using r1 k(1) r2 by (simp add: receiveData_def ebind_def md4 s2_def [symmetric])
  moreover have "rx (advance 16 s2) = q" using rx2 md4 by simp
  moreover have "stored s2 = stored s @ [(f, concat ps, True)]" "tx s2 = tx s" "room s2 = room s"
    using lim by (simp_all add: s2_def put_done_def advance_def)
  ultimately show ?thesis by (auto simp: advance_def)
qed

text \<open>A file is accepted only if the peer's strong checksum is that of the bytes that were piped.\<close>

lemma advance_prefix: "k \<le> length (rx s) \<Longrightarrow> \<exists>pre. rx s = pre @ rx (advance k s)"
  by (metis append_take_drop_id rx_advance)

lemma recv_loop_hash:
  "recv_loop sh localFile h s = (Inr h', t) \<Longrightarrow>
     \<exists>d pre. h' = h @ d \<and> piped t = piped s @ d \<and> stored t = stored s \<and> rx s = pre @ rx t"
proof (induction "length (rx s)" arbitrary: h s rule: less_induct)
  case less
  obtain x s1 where x: "recvToken s = (x, s1)" by (cases "recvToken s")
  obtain k where k: "k \<le> length (rx s)" "s1 = advance k s"
    using reads_onlyD [where m = recvToken, OF reads_only_recvToken x] by blast
  then obtain pre where pre: "rx s = pre @ rx s1" using advance_prefix by blast
  have s1: "piped s1 = piped s" "stored s1 = stored s" using k(2) by (simp_all add: advance_def)
  have lt: "length (rx s1) < length (rx s)" if "x = Inr td" for td
    using recvToken_consumes x that by blast
  have again: "\<exists>d pre. h' = h @ d \<and> piped t = piped s @ d \<and> stored t = stored s \<and> rx s = pre @ rx t"
    if "recv_loop sh localFile (h @ p) (s1\<lparr>piped := piped s @ p\<rparr>) = (Inr h', t)" "x = Inr td" for p td
    using less.hyps [OF _ that(1)] lt [OF that(2)] s1 pre by (auto intro: exI [of _ "pre @ _"])
  show ?case
    using less.prems x again s1 pre
    by (subst (asm) recv_loop.simps)
      (auto simp: ebind_def pipe_Write_def Let_def split: sum.splits if_splits option.splits)
qed

lemma receiveData_checked:
  assumes "receiveData E f localFile s = (Inr (), t)"
  shows "\<exists>d pre. rx s = pre @ r_md4 E (le_enc 4 (r_seed E) @ d) @ rx t \<and>
    stored t = stored s @ [case r_limit E f of None \<Rightarrow> (f, d, True) | Some n \<Rightarrow> (f, take n d, False)]"
proof -
  obtain sh s1 where r: "ReadFrom s = (Inr sh, s1)"
    using assms by (auto simp: receiveData_def ebind_eq_Inr)
  obtain k where k: "k \<le> length (rx s)" "s1 = advance k s"
    using reads_onlyD [where m = ReadFrom, OF reads_only_ReadFrom r] by blast
  then have s1: "stored s1 = stored s" by (simp add: advance_def)
  obtain pre where pre: "rx s = pre @ rx s1" using k advance_prefix by blast
  obtain h s2 where l: "recv_loop sh localFile (le_enc 4 (r_seed E)) (s1\<lparr>piped := []\<rparr>) = (Inr h, s2)"
    using assms r by (auto simp: receiveData_def ebind_def split: sum.splits prod.splits)
  from recv_loop_hash [OF l] obtain d pre' where
    d: "h = le_enc 4 (r_seed E) @ d" "piped s2 = d" "stored s2 = stored s" "rx s1 = pre' @ rx s2"
    using s1 by auto
  let ?s3 = "put_done E f True s2" and ?n = "length (r_md4 E h)"
  obtain b where b: "ReadFull ?n ?s3 = (Inr b, t)" "r_md4 E h = b"
    using assms r l by (auto simp: receiveData_def ebind_def Let_def split: sum.splits prod.splits if_splits)
  then have t: "b = take ?n (rx ?s3)" "t = advance ?n ?s3" by (auto simp: ReadFull_def split: if_splits)
  have "rx s2 = take ?n (rx s2) @ drop ?n (rx s2)" by simp
  moreover have "rx t = drop ?n (rx s2)" "take ?n (rx s2) = r_md4 E h"
    using b(2) t by (simp_all add: put_done_def)
  ultimately have "rx s2 = r_md4 E h @ rx t" by (simp only:)
  then have "rx s = (pre @ pre') @ r_md4 E (le_enc 4 (r_seed E) @ d) @ rx t"
    using pre d(1,4) by simp
  moreover have "stored t = stored s @ [case r_limit E f of None \<Rightarrow> (f, d, True) | Some n \<Rightarrow> (f, take n d, False)]"
    using t(2) d(2,3) by (simp add: put_done_def advance_def split: option.split)
  ultimately show ?thesis by blast
qed

section \<open>What the receiver promises\<close>

text \<open>
  C8: receiveData rebuilds the file: from a head, tokens that stand for pieces (literals, or blocks of
  the local file), the end mark and the right checksum it hands Put the concatenation of the pieces,
  returns without an error and leaves the rest of the input unread.
\<close>
theorem receiver_rebuilds:
  assumes "\<forall>x. length (r_md4 E x) = 16" and "head_ok sh"
    and "list_all2 (stands_for (sh\<lparr>Sums := []\<rparr>) localFile) ts ps" and "list_all (token_ok n) ts"
    and "rx s = enc_head sh @ enc_tokens ts @ enc_end @ r_md4 E (le_enc 4 (r_seed E) @ concat ps) @ q"
    and "r_limit E f = None"
  shows "\<exists>t. receiveData E f localFile s = (Inr (), t) \<and> rx t = q \<and>
    stored t = stored s @ [(f, concat ps, True)]"
  using receiveData_accepts [OF assms] by blast

definition demo_recv :: recv_env where
  "demo_recv = \<lparr>r_md4 = demo_md4, r_seed = 666, r_read = (\<lambda>fl. Inl (PathError True)), r_limit = (\<lambda>f. None),
     r_opts = zero_TransferOpts, r_dest = [47], r_remove = (\<lambda>fl. None)\<rparr>"

definition demo_recvr :: "bytes \<Rightarrow> recvr" where
  "demo_recvr inp = \<lparr>rx = inp, nread = 0, tx = [], room = None, piped = [], stored = [], IOErrors = 0, removed = []\<rparr>"

theorem receiver_rebuilds_witness:
  "\<exists>t. receiveData demo_recv zero_ReceiverFile (Some [1, 2, 3]) (demo_recvr
      (enc_head (signature demo_md4 666 [1, 2, 3]) @ enc_tokens [Copy 0, Lit [9]] @ enc_end @
       r_md4 demo_recv (le_enc 4 (r_seed demo_recv) @ concat [[1, 2, 3], [9]]) @ [5])) = (Inr (), t) \<and> rx t = [5] \<and>
    stored t = [(zero_ReceiverFile, [1, 2, 3, 9], True)]"
proof -
  let ?sg = "signature demo_md4 666 [1, 2, 3]" and ?b = "[1, 2, 3] :: bytes"
  have i: "isqrt 3 = 1" by (rule isqrt_unique) simp_all
  have f: "sint (BlockLength ?sg) = 700" "sint (ChecksumCount ?sg) = 1" "sint (RemainderLength ?sg) = 3"
    using SumSizesSqroot_fields [of 3] by (simp_all add: signature_def block_len_def i)
  then have "RemainderLength ?sg \<noteq> 0" by auto
  with f have st: "list_all2 (stands_for (?sg\<lparr>Sums := []\<rparr>) (Some ?b)) [Copy 0, Lit [9]] [?b, [9]]"
    by (simp add: copy_len_def sub_def)
  have ok: "head_ok ?sg" using req_head_ok [of "Some ?b" demo_md4 666] by simp
  show ?thesis
    using receiver_rebuilds [OF _ ok st, of demo_recv 1 "demo_recvr
        (enc_head ?sg @ enc_tokens [Copy 0, Lit [9]] @ enc_end @
         r_md4 demo_recv (le_enc 4 (r_seed demo_recv) @ concat [[1, 2, 3], [9]]) @ [5])" "[5]" zero_ReceiverFile]
    by (simp add: demo_recv_def demo_recvr_def length_demo_md4 chunkSize_def)
qed

text \<open>
  C7: nothing else is accepted: whenever receiveData returns without an error, for whatever input, the
  bytes that went to Put are followed on the wire by exactly their strong checksum with the seed.
\<close>
theorem receiver_checks_hash:
  assumes "receiveData E f localFile s = (Inr (), t)"
  shows "\<exists>d pre. rx s = pre @ r_md4 E (le_enc 4 (r_seed E) @ d) @ rx t \<and>
    stored t = stored s @ [case r_limit E f of None \<Rightarrow> (f, d, True) | Some n \<Rightarrow> (f, take n d, False)]"
  using receiveData_checked [OF assms] .

theorem receiver_checks_hash_witness:
  "\<exists>t. receiveData demo_recv zero_ReceiverFile None (demo_recvr
      (enc_head zero_SumHead @ enc_end @ demo_md4 (le_enc 4 (666 :: i32)))) = (Inr (), t) \<and>
    (\<exists>d pre. enc_head zero_SumHead @ enc_end @ demo_md4 (le_enc 4 (666 :: i32)) =
        pre @ demo_md4 (le_enc 4 (666 :: i32) @ d) @ rx t \<and> stored t = [(zero_ReceiverFile, d, True)])"
proof -
  let ?s = "demo_recvr (enc_head zero_SumHead @ enc_end @ demo_md4 (le_enc 4 (666 :: i32)))"
  obtain t where t: "receiveData demo_recv zero_ReceiverFile None ?s = (Inr (), t)"
    using receiveData_accepts [of demo_recv zero_SumHead None "[]" "[]" 0 ?s "[]" zero_ReceiverFile] zero_head_ok
    by (auto simp: demo_recv_def demo_recvr_def length_demo_md4)
  from receiver_checks_hash [OF t] t show ?thesis by (auto simp: demo_recv_def demo_recvr_def)
qed

text \<open>
  C34: the file index that a peer sends is not checked: every index outside the list other than -1 makes
  RecvFiles panic, whatever the phase and the list.
\<close>
theorem receiver_index_panics:
  assumes "rx s = le_enc 4 (idx :: i32) @ q" and "idx \<noteq> -1" and "sint idx < 0 \<or> int (length fileList) \<le> sint idx"
  shows "RecvFiles E fileList phase s = (Inl (Panic ''index out of range''), advance 4 s)"
  using ReadInt32_enc [OF assms(1)] assms(2,3) by (subst RecvFiles.simps) (auto simp: ebind_def fileList_at_def)

theorem receiver_index_panics_witness:
  "RecvFiles demo_recv [zero_ReceiverFile] 0 (demo_recvr (le_enc 4 (1 :: i32) @ [])) =
     (Inl (Panic ''index out of range''), advance 4 (demo_recvr (le_enc 4 (1 :: i32) @ [])))"
  by (rule receiver_index_panics [where idx = 1 and q = "[]"]) (simp_all add: demo_recvr_def)

end
