(* ===== verification/Session.thy ===== *)
theory Session
  imports RecvSpec
begin

text \<open>
  The two sides together: the tokens by which the sender answers stand, at the receiver, for the
  sender's file, provided no piece of that file is mistaken for a block of the receiver's copy.
\<close>

section \<open>From spelling to reading\<close>

text \<open>
  No piece of \<open>C\<close> has length, fast and strong checksum of a block of \<open>basis\<close> without being that block.
\<close>

definition collision_free :: "(bytes \<Rightarrow> bytes) \<Rightarrow> i32 \<Rightarrow> bytes \<Rightarrow> bytes \<Rightarrow> bool" where
  "collision_free md4 seed basis C \<longleftrightarrow>
     (\<forall>i p u v. C = u @ p @ v \<and> block_match md4 seed (signature md4 seed basis) i p \<longrightarrow>
        p = blocks (block_len (length basis)) basis ! i)"

lemma signature_fields:
  assumes "length b < 2 ^ 52"
  shows "sint (BlockLength (signature md4 seed b)) = int (block_len (length b))"
    and "sint (ChecksumCount (signature md4 seed b)) = int (length (blocks (block_len (length b)) b))"
    and "sint (RemainderLength (signature md4 seed b)) = int (length b mod block_len (length b))"
    and "length (Sums (signature md4 seed b)) = length (blocks (block_len (length b)) b)"
    and "length (blocks (block_len (length b)) b) < 2 ^ 31"
  using SumSizesSqroot_fields [OF assms] block_count_bound [OF assms]
  by (simp_all add: signature_def Let_def length_blocks)

lemma blocks_stand:
  assumes b: "length b < 2 ^ 52" and i: "i < length (blocks (block_len (length b)) b)"
  shows "stands_for ((signature md4 seed b)\<lparr>Sums := []\<rparr>) (Some b) (Copy i) (blocks (block_len (length b)) b ! i)"
proof -
  let ?B = "block_len (length b)" and ?sh = "(signature md4 seed b)\<lparr>Sums := []\<rparr>"
  let ?p = "blocks ?B b ! i"
  note f = signature_fields(1-4) [OF b, of md4 seed]
  have nth: "?p = take ?B (drop (i * ?B) b)" by (rule nth_blocks [OF block_len_pos(1) i])
  have rem: "RemainderLength (signature md4 seed b) = 0 \<longleftrightarrow> length b mod ?B = 0"
    using f(3) signed_eq_0_iff [of "RemainderLength (signature md4 seed b)"] by auto
  have cl: "copy_len ?sh i = int (length ?p)"
    using blocks_last_len [OF block_len_pos(1) i] f i rem by (auto simp: copy_len_def)
  have "0 < length ?p"
    using blocks_last_len [OF block_len_pos(1) i] by auto
  then have le: "i * ?B + length ?p \<le> length b" unfolding nth by simp
  have "sub (int i * int ?B) (int (length ?p)) b = take (length ?p) (drop (i * ?B) b)"
    by (simp add: sub_def nat_mult_distrib)
  also have "\<dots> = ?p" unfolding nth by (simp add: min_def)
  finally have sub: "?p = sub (int i * int ?B) (int (length ?p)) b" by simp
  have "int i * int ?B + int (length ?p) \<le> int (length b)"
    using le by (metis of_nat_add of_nat_le_iff of_nat_mult)
  with sub cl f(1) show ?thesis by simp
qed

lemma spelled_stands:
  assumes sp: "spelled md4 seed (req_head md4 seed basis) ts C" and ok: "basis_ok basis"
    and sh: "Sums (req_head md4 seed basis) \<noteq> [] \<Longrightarrow> sh = req_head md4 seed basis"
    and loc: "\<And>b. basis = Some b \<Longrightarrow> localFile = Some b \<and> collision_free md4 seed b C"
  shows "\<exists>ps. list_all2 (stands_for (sh\<lparr>Sums := []\<rparr>) localFile) ts ps \<and> concat ps = C \<and>
    list_all (token_ok (length (Sums (req_head md4 seed basis)))) ts"
proof -
  let ?h = "req_head md4 seed basis"
  obtain ps where ps: "list_all2 (piece_ok md4 seed ?h) ts ps" "concat ps = C"
    using sp by (auto simp: spelled_def)
  have "stands_for (sh\<lparr>Sums := []\<rparr>) localFile (ts ! j) (ps ! j)" if j: "j < length ts" for j
  proof (cases "ts ! j")
    case (Lit b)
    with list_all2_nthD [OF ps(1) j] show ?thesis by simp
  next
    case (Copy i)
    with list_all2_nthD [OF ps(1) j] have m: "block_match md4 seed ?h i (ps ! j)" by simp
    then have ne: "Sums ?h \<noteq> []" by (auto simp: block_match_def)
    then obtain b where b: "basis = Some b" by (cases basis) (auto simp: zero_SumHead_def)
    have jp: "j < length ps" using list_all2_lengthD [OF ps(1)] j by simp
    have "C = concat (take j ps) @ ps ! j @ concat (drop (Suc j) ps)"
      unfolding ps(2) [symmetric] by (subst id_take_nth_drop [OF jp]) simp
    then have eq: "ps ! j = blocks (block_len (length b)) b ! i"
      using loc [OF b] m b by (auto simp: collision_free_def)
    have len: "length b < 2 ^ 52" using ok b by simp
    have "i < length (blocks (block_len (length b)) b)"
      using m b signature_fields(4) [OF len, of md4 seed] by (simp add: block_match_def)
    with blocks_stand [OF len this, of md4 seed] sh [OF ne] loc [OF b] b eq Copy show ?thesis by simp
  qed
  then have "list_all2 (stands_for (sh\<lparr>Sums := []\<rparr>) localFile) ts ps"
    using list_all2_lengthD [OF ps(1)] by (simp add: list_all2_conv_all_nth)
  moreover have "length (Sums ?h) < 2 ^ 31"
    using signature_fields(4,5) ok by (cases basis) (auto simp: zero_SumHead_def)
  ultimately show ?thesis using spelled_token_ok [OF sp order_refl] ps(2) by blast
qed

section \<open>One answer, received\<close>

lemma recvFile1_answer:
  assumes md4: "\<forall>x. length (r_md4 E x) = 16" and dry: "\<not> DryRun (r_opts E)" and lim: "r_limit E f = None"
    and ans: "answered (r_md4 E) (r_seed E) idx basis C out" and ok: "basis_ok basis"
    and loc: "\<And>b. basis = Some b \<Longrightarrow>
      openLocalFile E f = Inr b \<and> collision_free (r_md4 E) (r_seed E) b C"
    and rx: "rx s = drop 4 out @ q"
  shows "\<exists>t. recvFile1 E f s = (Inr (), t) \<and> rx t = q \<and> tx t = tx s \<and> room t = room s \<and>
    stored t = stored s @ [(f, C, True)]"
proof -
  let ?l = "case openLocalFile E f of Inl e \<Rightarrow> None | Inr b \<Rightarrow> Some b"
  obtain sh ts where a: "head_ok sh" "Sums (req_head (r_md4 E) (r_seed E) basis) \<noteq> [] \<longrightarrow> sh = req_head (r_md4 E) (r_seed E) basis"
    "spelled (r_md4 E) (r_seed E) (req_head (r_md4 E) (r_seed E) basis) ts C"
    "out = le_enc 4 idx @ enc_head sh @ enc_tokens ts @ enc_end @ r_md4 E (le_enc 4 (r_seed E) @ C)"
    using ans by (auto simp: answered_def)
  obtain ps where ps: "list_all2 (stands_for (sh\<lparr>Sums := []\<rparr>) ?l) ts ps" "concat ps = C"
    "list_all (token_ok (length (Sums (req_head (r_md4 E) (r_seed E) basis)))) ts"
    using spelled_stands [OF a(3) ok, of sh ?l] a(2) loc by force
  have "rx s = enc_head sh @ enc_tokens ts @ enc_end @ r_md4 E (le_enc 4 (r_seed E) @ concat ps) @ q"
    using rx a(4) ps(2) by simp
  from receiveData_accepts [OF md4 a(1) ps(1,3) this lim] dry ps(2) show ?thesis
    by (simp add: recvFile1_def)
qed

section \<open>All answers\<close>

definition reply_ok :: "recv_env \<Rightarrow> ReceiverFile list \<Rightarrow> (i32 \<Rightarrow> bytes) \<Rightarrow> request \<Rightarrow> bool" where
  "reply_ok E fileList cont r \<longleftrightarrow>
     (case r of (idx, basis) \<Rightarrow>
        0 \<le> sint idx \<and> sint idx < int (length fileList) \<and> basis_ok basis \<and>
        r_limit E (fileList ! nat (sint idx)) = None \<and>
        (\<forall>b. basis = Some b \<longrightarrow> openLocalFile E (fileList ! nat (sint idx)) = Inr b \<and>
            collision_free (r_md4 E) (r_seed E) b (cont idx)))"

lemma RecvFiles_answers:
  assumes md4: "\<forall>x. length (r_md4 E x) = 16" and dry: "\<not> DryRun (r_opts E)"
  shows "list_all2 (\<lambda>r out. answered (r_md4 E) (r_seed E) (fst r) (snd r) (cont (fst r)) out) reqs outs \<Longrightarrow>
    \<forall>r \<in> set reqs. reply_ok E fileList cont r \<Longrightarrow>
    rx s = concat outs @ le_enc 4 (-1 :: i32) @ le_enc 4 (-1 :: i32) @ q \<Longrightarrow>
    \<exists>t. RecvFiles E fileList 0 s = (Inr (), t) \<and> rx t = q \<and> tx t = tx s \<and> room t = room s \<and>
      stored t = stored s @ map (\<lambda>r. (fileList ! nat (sint (fst r)), cont (fst r), True)) reqs"
proof (induction arbitrary: s rule: list_all2_induct)
  case Nil
  then have rx: "rx s = le_enc 4 (-1 :: i32) @ le_enc 4 (-1 :: i32) @ q" by simp
  then have rx4: "rx (advance 4 s) = le_enc 4 (-1 :: i32) @ q" by simp
  have "RecvFiles E fileList 0 s = RecvFiles E fileList 1 (advance 4 s)"
    using ReadInt32_enc [OF rx] by (subst RecvFiles.simps) (simp add: ebind_def)
  also have "\<dots> = (Inr (), advance 4 (advance 4 s))"
    using ReadInt32_enc [OF rx4] by (subst RecvFiles.simps) (simp add: ebind_def)
  finally show ?case using rx by (auto simp: advance_def)
next
  case (Cons r reqs out outs)
  obtain idx basis where r: "r = (idx, basis)" by (cases r)
  have ok: "0 \<le> sint idx" "sint idx < int (length fileList)" "basis_ok basis"
    "r_limit E (fileList ! nat (sint idx)) = None"
    "\<And>b. basis = Some b \<Longrightarrow> openLocalFile E (fileList ! nat (sint idx)) = Inr b \<and>
            collision_free (r_md4 E) (r_seed E) b (cont idx)"
    using Cons.prems(1) r by (auto simp: reply_ok_def)
  have ans: "answered (r_md4 E) (r_seed E) idx basis (cont idx) out" using Cons.hyps(1) r by simp
  let ?f = "fileList ! nat (sint idx)" and ?q = "concat outs @ le_enc 4 (-1 :: i32) @ le_enc 4 (-1 :: i32) @ q"
  have rx: "rx s = le_enc 4 idx @ drop 4 out @ ?q" using Cons.prems(2) ans by (auto simp: answered_def)
  have rx4: "rx (advance 4 s) = drop 4 out @ ?q" using rx by simp
  obtain t where t: "recvFile1 E ?f (advance 4 s) = (Inr (), t)" "rx t = ?q" "tx t = tx s" "room t = room s"
    "stored t = stored s @ [(?f, cont idx, True)]"
    using recvFile1_answer [OF md4 dry ok(4) ans ok(3,5) rx4] by (auto simp: advance_def)
  have "idx \<noteq> -1" using ok(1) by auto
  then have "RecvFiles E fileList 0 s = RecvFiles E fileList 0 t"
    using ReadInt32_enc [OF rx] ok(1,2) t(1)
    by (subst RecvFiles.simps) (simp add: ebind_def fileList_at_def)
  with Cons.IH [of t] Cons.prems(1) t(2-) r show ?case by auto
qed

end
