(* ===== verification/GeneratorSpec.thy ===== *)
theory GeneratorSpec
  imports Generator Session
begin

text \<open>
  The generator's output is the list of requests that the sender answers: which files are wanted
  (\<open>wanted\<close>) and with which basis (\<open>basis_of\<close>).
\<close>

section \<open>What is requested\<close>

definition local_copy :: "recv_env \<Rightarrow> ReceiverFile \<Rightarrow> err + FileInfo \<times> bytes" where
  "local_copy E f = r_read E \<lparr>Path = [], WPath = Name f, Regular = False\<rparr>"

definition wanted :: "recv_env \<Rightarrow> ReceiverFile \<Rightarrow> bool" where
  "wanted E f \<longleftrightarrow> \<not> listOnly E \<and> IsRegular (FileMode f) \<and>
     (case local_copy E f of Inl e \<Rightarrow> True | Inr (st, b) \<Rightarrow> \<not> skipFile (r_opts E) f st)"

definition basis_of :: "recv_env \<Rightarrow> ReceiverFile \<Rightarrow> bytes option" where
  "basis_of E f = (case local_copy E f of Inl e \<Rightarrow> None | Inr (st, b) \<Rightarrow> Some b)"

fun requests_from :: "recv_env \<Rightarrow> nat \<Rightarrow> ReceiverFile list \<Rightarrow> request list" where
  "requests_from E idx [] = []"
| "requests_from E idx (f # fs) =
     (if wanted E f then [(word_of_nat idx, basis_of E f)] else []) @ requests_from E (idx + 1) fs"

definition requests :: "recv_env \<Rightarrow> ReceiverFile list \<Rightarrow> request list" where
  "requests E fileList = requests_from E 0 fileList"

text \<open>The local copies are what their \<open>FileInfo\<close> says, and of a size whose square root is exact.\<close>

definition copies_ok :: "recv_env \<Rightarrow> ReceiverFile list \<Rightarrow> bool" where
  "copies_ok E fileList \<longleftrightarrow>
     (\<forall>f \<in> set fileList. \<forall>st b. local_copy E f = Inr (st, b) \<longrightarrow>
        fiSize st = int (length b) \<and> length b < 2 ^ 52)"

lemma recvGenerator_request:
  assumes dry: "\<not> DryRun (r_opts E)" and room: "room c = None"
    and ok: "\<And>st b. local_copy E f = Inr (st, b) \<Longrightarrow> fiSize st = int (length b) \<and> length b < 2 ^ 52"
  shows "\<exists>d. recvGenerator E idx f c = (Inr (), d) \<and>
    wrote c (if wanted E f then enc_req (r_md4 E) (r_seed E) (word_of_nat idx, basis_of E f) else []) d"
proof (cases "wanted E f")
  case False
  then have "recvGenerator E idx f c = (Inr (), c)"
    by (auto simp: recvGenerator_def wanted_def local_copy_def split: sum.splits)
  with False room show ?thesis by (simp add: wrote_refl)
next
  case True
  let ?c = "emit (le_enc 4 (word_of_nat idx :: i32)) c"
  have wc: "wrote c (le_enc 4 (word_of_nat idx :: i32)) ?c" using room by (rule wrote_emit)
  show ?thesis
  proof (cases "local_copy E f")
    case (Inl e)
    have "recvGenerator E idx f c = (Inr (), emit (enc_head zero_SumHead) ?c)"
      using True Inl dry room
      by (simp add: recvGenerator_def requestFullFile_def wanted_def local_copy_def ebind_def
          WriteInt32_ok WriteTo_def WriteString_ok)
    moreover have "basis_of E f = None" using Inl by (simp add: basis_of_def)
    ultimately show ?thesis using True wrote_trans [OF wc wrote_emit [of ?c "enc_head zero_SumHead"]] room
      by simp
  next
    case (Inr sb)
    obtain st b where sb: "sb = (st, b)" by (cases sb)
    have o: "fiSize st = int (length b)" "length b < 2 ^ 52" using ok Inr sb by auto
    obtain d where d: "generateAndSendSums (r_md4 E) (r_seed E) \<lparr>rx = b, nread = 0\<rparr> (int (length b)) ?c = (Inr (), d)"
      "wrote ?c (enc_head (SumSizesSqroot (int (length b))) @
             enc_sums (r_md4 E) (r_seed E) (blocks (block_len (length b)) b)) d"
      using generateAndSendSums_wrote [OF o(2), of "\<lparr>rx = b, nread = 0\<rparr>" "[]" ?c] room by auto
    have "recvGenerator E idx f c = (Inr (), d)"
      using True Inr sb dry room o(1) d(1)
      by (simp add: recvGenerator_def wanted_def local_copy_def ebind_def WriteInt32_ok)
    moreover have "basis_of E f = Some b" using Inr sb by (simp add: basis_of_def)
    ultimately show ?thesis using True wrote_trans [OF wc d(2)] by simp
  qed
qed

lemma GenerateFiles_loop_requests:
  assumes dry: "\<not> DryRun (r_opts E)"
  shows "room c = None \<Longrightarrow> copies_ok E fs \<Longrightarrow>
    \<exists>d. GenerateFiles_loop E idx fs c = (Inr (), d) \<and>
      wrote c (concat (map (enc_req (r_md4 E) (r_seed E)) (requests_from E idx fs))) d"
proof (induction fs arbitrary: idx c)
  case Nil
  then show ?case by (simp add: wrote_refl)
next
  case (Cons f fs)
  have okf: "fiSize st = int (length b) \<and> length b < 2 ^ 52" if "local_copy E f = Inr (st, b)" for st b
    using Cons.prems(2) that by (simp add: copies_ok_def)
  obtain d where d: "recvGenerator E idx f c = (Inr (), d)"
    "wrote c (if wanted E f then enc_req (r_md4 E) (r_seed E) (word_of_nat idx, basis_of E f) else []) d"
    using recvGenerator_request [OF dry Cons.prems(1) okf] by blast
  obtain e where e: "GenerateFiles_loop E (idx + 1) fs d = (Inr (), e)"
    "wrote d (concat (map (enc_req (r_md4 E) (r_seed E)) (requests_from E (idx + 1) fs))) e"
    using Cons.IH [OF wrote_room [OF d(2)], of "idx + 1"] Cons.prems(2) by (auto simp: copies_ok_def)
  from wrote_trans [OF d(2) e(2)] d(1) e(1) show ?case by (auto simp: ebind_def)
qed

lemma GenerateFiles_requests:
  assumes "\<not> DryRun (r_opts E)" and "room c = None" and "copies_ok E fileList"
  shows "\<exists>d. GenerateFiles E fileList c = (Inr (), d) \<and>
    wrote c (concat (map (enc_req (r_md4 E) (r_seed E)) (requests E fileList)) @
             le_enc 4 (-1 :: i32) @ le_enc 4 (-1 :: i32)) d"
proof -
  obtain d where d: "GenerateFiles_loop E 0 fileList c = (Inr (), d)"
    "wrote c (concat (map (enc_req (r_md4 E) (r_seed E)) (requests E fileList))) d"
    using GenerateFiles_loop_requests [OF assms] unfolding requests_def by blast
  let ?m = "le_enc 4 (-1 :: i32)"
  have r: "room d = None" using d(2) by (rule wrote_room)
  have "GenerateFiles E fileList c = (Inr (), emit ?m (emit ?m d))"
    using d(1) r by (simp add: GenerateFiles_def ebind_def WriteInt32_ok)
  moreover have "wrote d (?m @ ?m) (emit ?m (emit ?m d))" using r by (simp add: wrote_def)
  ultimately show ?thesis using wrote_trans [OF d(2)] by blast
qed

text \<open>Every request is for a regular file of the list, by its index, with the local copy as basis.\<close>

lemma requests_from_sound:
  assumes "(i, basis) \<in> set (requests_from E k fs)" and "k + length fs \<le> 2 ^ 31"
  shows "\<exists>j. j < length fs \<and> sint i = int (k + j) \<and> wanted E (fs ! j) \<and> basis = basis_of E (fs ! j)"
  using assms
proof (induction fs arbitrary: k)
  case Nil
  then show ?case by simp
next
  case (Cons f fs)
  show ?case
  proof (cases "(i, basis) \<in> set (requests_from E (k + 1) fs)")
    case True
    with Cons.IH [of "k + 1"] Cons.prems(2) obtain j where
      "j < length fs" "sint i = int (k + 1 + j)" "wanted E (fs ! j)" "basis = basis_of E (fs ! j)" by auto
    then show ?thesis by (intro exI [of _ "Suc j"]) simp
  next
    case False
    with Cons.prems have "wanted E f" "i = word_of_nat k" "basis = basis_of E f"
      by (auto split: if_splits)
    with Cons.prems(2) show ?thesis by (intro exI [of _ 0]) (simp add: sint_word_of_nat32)
  qed
qed

lemma requests_sound:
  assumes "(i, basis) \<in> set (requests E fileList)" and "length fileList \<le> 2 ^ 31"
  shows "0 \<le> sint i" and "sint i < int (length fileList)" and "wanted E (fileList ! nat (sint i))"
    and "basis = basis_of E (fileList ! nat (sint i))"
  using requests_from_sound [of i basis E 0 fileList] assms by (auto simp: requests_def)

lemma requests_from_complete:
  assumes "j < length fs" and "wanted E (fs ! j)"
  shows "(word_of_nat (k + j), basis_of E (fs ! j)) \<in> set (requests_from E k fs)"
  using assms
proof (induction fs arbitrary: j k)
  case Nil
  then show ?case by simp
next
  case (Cons f fs)
  show ?case
  proof (cases j)
    case 0
    with Cons.prems show ?thesis by simp
  next
    case (Suc m)
    with Cons.IH [of m "k + 1"] Cons.prems show ?thesis by simp
  qed
qed

lemma requests_complete:
  "j < length fileList \<Longrightarrow> wanted E (fileList ! j) \<Longrightarrow>
     (word_of_nat j, basis_of E (fileList ! j)) \<in> set (requests E fileList)"
  using requests_from_complete [of j fileList E 0] by (simp add: requests_def)

section \<open>A whole transfer\<close>

text \<open>
  The files of the two sides agree: file \<open>i\<close> of the sender's list can be served with the content
  \<open>cont i\<close>, the receiver's local copies are stable between generator and receiver, \<open>Put\<close> takes
  everything, and no piece of a file collides with a block of the local copy.
\<close>

context byte_reader
begin

definition agree ::
  "'r send_env \<Rightarrow> recv_env \<Rightarrow> SenderFile list \<Rightarrow> ReceiverFile list \<Rightarrow> (i32 \<Rightarrow> bytes) \<Rightarrow> nat \<Rightarrow> bool" where
  "agree S V files fileList cont fuel \<longleftrightarrow>
     e_md4 S = r_md4 V \<and> e_seed S = r_seed V \<and> \<not> e_dry S \<and> \<not> DryRun (r_opts V) \<and>
     length files = length fileList \<and> length fileList \<le> 2 ^ 31 \<and> copies_ok V fileList \<and>
     (\<forall>(i, basis) \<in> set (requests V fileList).
        servable S (files ! nat (sint i)) (cont i) (req_head (r_md4 V) (r_seed V) basis) \<and>
        length (cont i) < fuel \<and> r_limit V (fileList ! nat (sint i)) = None \<and>
        (\<forall>b. basis = Some b \<longrightarrow> openLocalFile V (fileList ! nat (sint i)) = Inr b \<and>
           collision_free (r_md4 V) (r_seed V) b (cont i)))"

lemma agree_basis_ok:
  assumes "copies_ok V fileList" and "(i, basis) \<in> set (requests V fileList)" and "length fileList \<le> 2 ^ 31"
  shows "basis_ok basis"
proof -
  note r = requests_sound [OF assms(2,3)]
  let ?f = "fileList ! nat (sint i)"
  have "?f \<in> set fileList" using r(1,2) by simp
  then have c: "local_copy V ?f = Inr (st, b) \<Longrightarrow> length b < 2 ^ 52" for st b
    using assms(1) unfolding copies_ok_def by blast
  show ?thesis
    unfolding r(4) basis_of_def using c by (cases "local_copy V ?f") (auto split: prod.splits)
qed

lemma agree_request:
  assumes a: "agree S V files fileList cont fuel" and r: "r \<in> set (requests V fileList)"
  shows "request_ok S files cont fuel r" and "reply_ok V fileList cont r"
proof -
  obtain i basis where ib: "r = (i, basis)" by (cases r)
  have len: "length fileList \<le> 2 ^ 31" "copies_ok V fileList" "length files = length fileList"
    using a by (auto simp: agree_def)
  have i: "0 \<le> sint i" "sint i < int (length fileList)" using requests_sound(1,2) [OF _ len(1)] r ib by auto
  have b: "basis_ok basis" using agree_basis_ok [OF len(2) _ len(1)] r ib by blast
  have "servable S (files ! nat (sint i)) (cont i) (req_head (r_md4 V) (r_seed V) basis) \<and>
        length (cont i) < fuel \<and> r_limit V (fileList ! nat (sint i)) = None \<and>
        (\<forall>b. basis = Some b \<longrightarrow> openLocalFile V (fileList ! nat (sint i)) = Inr b \<and>
           collision_free (r_md4 V) (r_seed V) b (cont i))"
    using a r unfolding agree_def ib by blast
  moreover have "e_md4 S = r_md4 V" "e_seed S = r_seed V" using a by (auto simp: agree_def)
  ultimately show "request_ok S files cont fuel r" "reply_ok V fileList cont r"
    using i b len(3) by (simp_all add: request_ok_def reply_ok_def ib)
qed

lemma transfer_delivers:
  assumes md4: "\<forall>x. length (r_md4 V x) = 16" and srt: "slice_sort (e_sort S) tag"
    and a: "agree S V files fileList cont fuel"
    and g: "room g = None" "sent g = []" and s: "room s = None" "sent s = []"
    and rounds: "length (requests V fileList) + 2 \<le> rounds"
  shows "\<exists>g'. GenerateFiles V fileList g = (Inr (), g') \<and>
    (rx s = sent g' \<longrightarrow> (\<exists>s'. SendFiles S fuel rounds files s = Some (Inr (), s') \<and> rx s' = [] \<and>
      (\<forall>r q. rx r = sent s' @ q \<longrightarrow> (\<exists>r'. RecvFiles V fileList 0 r = (Inr (), r') \<and> rx r' = q \<and>
         stored r' = stored r @
           map (\<lambda>x. (fileList ! nat (sint (fst x)), cont (fst x), True)) (requests V fileList)))))"
proof -
  let ?rq = "requests V fileList" and ?m = "le_enc 4 (-1 :: i32)"
  have eq: "e_md4 S = r_md4 V" "e_seed S = r_seed V" "\<not> e_dry S" "\<not> DryRun (r_opts V)" "copies_ok V fileList"
    using a by (auto simp: agree_def)
  obtain g' where g': "GenerateFiles V fileList g = (Inr (), g')"
    "wrote g (concat (map (enc_req (r_md4 V) (r_seed V)) ?rq) @ ?m @ ?m) g'"
    using GenerateFiles_requests [OF eq(4) g(1) eq(5)] by blast
  have sg: "sent g' = concat (map (enc_req (e_md4 S) (e_seed S)) ?rq) @ ?m @ ?m @ []"
    using g'(2) g(2) eq(1,2) by (simp add: wrote_def)
  have md4': "\<forall>x. length (e_md4 S x) = 16" using md4 eq(1) by simp
  have "\<exists>s'. SendFiles S fuel rounds files s = Some (Inr (), s') \<and> rx s' = [] \<and>
      (\<forall>r q. rx r = sent s' @ q \<longrightarrow> (\<exists>r'. RecvFiles V fileList 0 r = (Inr (), r') \<and> rx r' = q \<and>
         stored r' = stored r @ map (\<lambda>x. (fileList ! nat (sint (fst x)), cont (fst x), True)) ?rq))"
    if net: "rx s = sent g'"
  proof -
    have ok: "\<forall>r \<in> set ?rq. request_ok S files cont fuel r" and rep: "\<forall>r \<in> set ?rq. reply_ok V fileList cont r"
      using agree_request [OF a] by blast+
    obtain outs s' where s': "SendFiles S fuel rounds files s = Some (Inr (), s')"
      "talked s (concat outs @ ?m @ ?m) [] s'"
      "list_all2 (\<lambda>r out. answered (e_md4 S) (e_seed S) (fst r) (snd r) (cont (fst r)) out) ?rq outs"
      using SendFiles_answers [OF md4' srt eq(3) ok s(1) net [unfolded sg] rounds] by blast
    have "\<exists>r'. RecvFiles V fileList 0 r = (Inr (), r') \<and> rx r' = q \<and>
         stored r' = stored r @ map (\<lambda>x. (fileList ! nat (sint (fst x)), cont (fst x), True)) ?rq"
      if net: "rx r = sent s' @ q" for r q
      using RecvFiles_answers [OF md4 eq(4) s'(3) [unfolded eq(1,2)] rep, of r q] net s'(2) s(2)
      by (auto simp: talked_def)
    with s' show ?thesis by (auto simp: talked_def)
  qed
  with g'(1) show ?thesis by blast
qed

end

section \<open>What generator and transfer promise\<close>



text \<open>The requirements of \<open>agree\<close>, for a sender whose files arrive in segments.\<close>

definition net_agree ::
  "bytes list send_env \<Rightarrow> recv_env \<Rightarrow> SenderFile list \<Rightarrow> ReceiverFile list \<Rightarrow> (i32 \<Rightarrow> bytes) \<Rightarrow> nat \<Rightarrow> bool" where
  "net_agree S V files fileList cont fuel \<longleftrightarrow>
     e_md4 S = r_md4 V \<and> e_seed S = r_seed V \<and> \<not> e_dry S \<and> \<not> DryRun (r_opts V) \<and>
     length files = length fileList \<and> length fileList \<le> 2 ^ 31 \<and> copies_ok V fileList \<and>
     (\<forall>(i, basis) \<in> set (requests V fileList).
        net_servable S (files ! nat (sint i)) (cont i) (req_head (r_md4 V) (r_seed V) basis) \<and>
        length (cont i) < fuel \<and> r_limit V (fileList ! nat (sint i)) = None \<and>
        (\<forall>b. basis = Some b \<longrightarrow> openLocalFile V (fileList ! nat (sint i)) = Inr b \<and>
           collision_free (r_md4 V) (r_seed V) b (cont i)))"

lemma segs_agree: "segs.agree = net_agree"
  by (intro ext) (simp add: segs.agree_def net_agree_def segs_servable)


text \<open>A receiver with an outdated copy of three bytes of one file.\<close>

definition demo_entry2 :: ReceiverFile where
  "demo_entry2 = zero_ReceiverFile\<lparr>Name := [97], Length := 4, Mode := S_IFREG\<rparr>"

definition demo_recv2 :: recv_env where
  "demo_recv2 = demo_recv\<lparr>r_read := (\<lambda>fl. Inr (\<lparr>fiName = [97], fiSize = 3, fiMode = 0, fiModTime = 0\<rparr>, [1, 2, 3]))\<rparr>"

lemma demo_collision_free: "collision_free demo_md4 666 [1, 2, 3] [9, 1, 2, 3]"
proof -
  have i: "isqrt 3 = 1" by (rule isqrt_unique) simp_all
  have bs: "blocks (block_len (Suc (Suc (Suc 0)))) [1, 2, 3 :: byte] = [[1, 2, 3]]"
    using i by (simp add: block_len_def blocks_Cons numeral_3_eq_3)
  have "p = [1, 2, 3]" if "length p = 3" "Checksum2 demo_md4 666 p = Checksum2 demo_md4 666 [1, 2, 3]" for p
  proof -
    have "take 3 (Checksum2 demo_md4 666 p) = p" using that(1) by (simp add: Checksum2_def demo_md4_def)
    moreover have "take 3 (Checksum2 demo_md4 666 [1, 2, 3]) = [1, 2, 3]" by (simp add: Checksum2_def demo_md4_def)
    ultimately show ?thesis using that(2) by metis
  qed
  moreover have "length (Checksum2 demo_md4 666 p) = 16" for p by (simp add: Checksum2_def length_demo_md4)
  ultimately show ?thesis
    using SumSizesSqroot_fields [of 3]
    by (auto simp: collision_free_def block_match_def signature_def bs)
qed

lemma demo_agree: "net_agree demo_env demo_recv2 [demo_entry] [demo_entry2] (\<lambda>i. [9, 1, 2, 3]) 5"
proof -
  have o: "r_opts demo_recv2 = zero_TransferOpts" "r_md4 demo_recv2 = demo_md4" "r_seed demo_recv2 = 666"
    "r_limit demo_recv2 f = None" "r_dest demo_recv2 = [47]" for f by (simp_all add: demo_recv2_def demo_recv_def)
  have "local_copy demo_recv2 f = Inr (\<lparr>fiName = [97], fiSize = 3, fiMode = 0, fiModTime = 0\<rparr>, [1, 2, 3])" for f
    by (simp add: local_copy_def demo_recv2_def)
  note l = this
  have "openLocalFile demo_recv2 f = Inr [1, 2, 3]" for f by (simp add: openLocalFile_def demo_recv2_def)
  moreover have "copies_ok demo_recv2 [demo_entry2]" by (simp add: copies_ok_def l)
  moreover have "set (requests demo_recv2 [demo_entry2]) \<subseteq> {(0, Some [1, 2, 3])}"
    by (auto simp: requests_def basis_of_def l)
  ultimately show ?thesis
    using demo_servable demo_collision_free
    by (auto simp: net_agree_def o zero_TransferOpts_def) (simp_all add: demo_env_def)
qed


end
