(* ===== verification/Interleave.thy ===== *)
theory Interleave
  imports ClientRun GeneratorSpec
begin

text \<open>
  The receiver's two goroutines share one connection: the generator only writes to it and the
  receiver only reads from it.  A call that only writes commutes with every change of the read
  side, and the other way round, so the two runs can be put in either order.
\<close>

section \<open>Calls that only write\<close>

text \<open>The read side of \<open>t\<close> with the write side of \<open>s\<close>.\<close>

definition mix :: "recvr \<Rightarrow> recvr \<Rightarrow> recvr" where
  "mix t s = t\<lparr>tx := tx s, room := room s\<rparr>"

definition only_writes :: "(recvr, 'a) io \<Rightarrow> bool" where
  "only_writes m \<longleftrightarrow> (\<forall>s t. m (mix t s) = (fst (m s), mix t (snd (m s))))"

definition only_reads :: "(recvr, 'a) io \<Rightarrow> bool" where
  "only_reads m \<longleftrightarrow> (\<forall>s w. m (mix s w) = (fst (m s), mix (snd (m s)) w))"

lemma mix_simps [simp]:
  "mix s s = s"
  "mix (mix s t) u = mix s u"
  "mix s (mix t u) = mix s u"
  by (simp_all add: mix_def)

lemma only_writesI: "(\<And>s t. m (mix t s) = (fst (m s), mix t (snd (m s)))) \<Longrightarrow> only_writes m"
  by (simp add: only_writes_def)

lemma only_readsI: "(\<And>s w. m (mix s w) = (fst (m s), mix (snd (m s)) w)) \<Longrightarrow> only_reads m"
  by (simp add: only_reads_def)

lemma only_writes_ebind:
  assumes "only_writes m" and "\<And>x. only_writes (f x)" shows "only_writes (ebind m f)"
  using assms by (auto simp: only_writes_def ebind_def split: prod.splits sum.splits)

lemma only_reads_ebind:
  assumes "only_reads m" and "\<And>x. only_reads (f x)" shows "only_reads (ebind m f)"
  using assms by (auto simp: only_reads_def ebind_def split: prod.splits sum.splits)

lemma only_writes_basic [simp]: "only_writes (ret x)" "only_writes (fail e)"
  by (simp_all add: only_writes_def)

lemma only_reads_basic [simp]: "only_reads (ret x)" "only_reads (fail e)"
  by (simp_all add: only_reads_def)

lemma only_writes_conn_Write [simp]: "only_writes (conn_Write p)"
  by (rule only_writesI) (auto simp: conn_Write_def mix_def split: option.splits)

text \<open>A call that only writes leaves the read side as it is, and the other way round.\<close>

lemma only_writes_read_side: "only_writes m \<Longrightarrow> mix s (snd (m s)) = snd (m s)"
  unfolding only_writes_def by (metis snd_conv mix_simps(1))

lemma only_reads_write_side: "only_reads m \<Longrightarrow> mix (snd (m s)) s = snd (m s)"
  unfolding only_reads_def by (metis snd_conv mix_simps(1))

text \<open>So the two orders end in the same results and the same state.\<close>

lemma only_commute:
  assumes g: "only_writes g" and r: "only_reads r"
  shows "fst (g (snd (r s))) = fst (g s)" and "fst (r (snd (g s))) = fst (r s)"
    and "snd (r (snd (g s))) = snd (g (snd (r s)))"
proof -
  define u v where "u = snd (g s)" and "v = snd (r s)"
  have gv: "g v = (fst (g s), mix v u)"
    using g only_reads_write_side [OF r, of s] unfolding only_writes_def u_def v_def by metis
  have ru: "r u = (fst (r s), mix v u)"
    using r only_writes_read_side [OF g, of s] unfolding only_reads_def u_def v_def by metis
  show "fst (g (snd (r s))) = fst (g s)" "fst (r (snd (g s))) = fst (r s)"
    "snd (r (snd (g s))) = snd (g (snd (r s)))"
    using gv ru by (simp_all add: u_def v_def)
qed

section \<open>The generator only writes\<close>

lemma only_writes_WriteInt32 [simp]: "only_writes (WriteInt32 x)"
  unfolding WriteInt32_def by simp

lemma only_writes_WriteTo [simp]: "only_writes (WriteTo sh)"
  unfolding WriteTo_def WriteString_def by simp

lemma only_writes_sums: "only_writes (generateAndSendSums_loop md4 seed B n remaining inp)"
  by (induction n arbitrary: remaining inp)
    (auto simp: Let_def split: prod.split sum.split intro!: only_writes_ebind)

lemma only_writes_recvGenerator: "only_writes (recvGenerator E idx f)"
  unfolding recvGenerator_def requestFullFile_def generateAndSendSums_def Let_def
  by (auto split: sum.split intro!: only_writes_ebind only_writes_sums)

lemma only_writes_GenerateFiles: "only_writes (GenerateFiles E fileList)"
proof -
  have "only_writes (GenerateFiles_loop E idx fs)" for idx fs
    by (induction fs arbitrary: idx) (auto intro!: only_writes_ebind only_writes_recvGenerator)
  then show ?thesis unfolding GenerateFiles_def by (intro only_writes_ebind) simp_all
qed

section \<open>The receiver only reads\<close>

lemma mix_fields [simp]: "rx (mix s w) = rx s" "piped (mix s w) = piped s" "stored (mix s w) = stored s"
  "removed (mix s w) = removed s"
  by (simp_all add: mix_def)

lemma mix_piped: "mix s w\<lparr>piped := p\<rparr> = mix (s\<lparr>piped := p\<rparr>) w"
  by (rule recvr.equality) (simp_all add: mix_def)

lemma mix_put: "put_done E f b (mix s w) = mix (put_done E f b s) w"
  by (rule recvr.equality) (simp_all add: put_done_def mix_def split: option.split)

lemma only_reads_ReadFull [simp]: "only_reads (ReadFull n)"
  by (rule only_readsI) (simp add: ReadFull_def mix_def advance_def)

lemma only_reads_make [simp]: "only_reads (make_ReadFull n)"
  by (simp add: make_ReadFull_def)

lemma only_reads_ReadInt32 [simp]: "only_reads ReadInt32"
  unfolding ReadInt32_def by (intro only_reads_ebind) simp_all

lemma only_reads_recvToken [simp]: "only_reads recvToken"
  unfolding recvToken_def by (intro only_reads_ebind) (auto intro!: only_reads_ebind)

lemma only_reads_ReadFrom [simp]: "only_reads ReadFrom"
  unfolding ReadFrom_def by (auto intro!: only_reads_ebind)

lemma only_readsD: "only_reads m \<Longrightarrow> m s = (x, t) \<Longrightarrow> m (mix s w) = (x, mix t w)"
  by (simp add: only_reads_def)

lemma only_reads_recv_loop: "only_reads (recv_loop sh localFile h)"
proof -
  have "recv_loop sh localFile h (mix s w) =
      (fst (recv_loop sh localFile h s), mix (snd (recv_loop sh localFile h s)) w)" for s w
  proof (induction "length (rx s)" arbitrary: h s rule: less_induct)
    case less
    obtain x s1 where x: "recvToken s = (x, s1)" by (cases "recvToken s")
    have lt: "length (rx s1) < length (rx s)" if "x = Inr td" for td
      using recvToken_consumes x that by blast
    have again: "recv_loop sh localFile h' (mix s1 w\<lparr>piped := p\<rparr>) =
        (fst (recv_loop sh localFile h' (s1\<lparr>piped := p\<rparr>)), mix (snd (recv_loop sh localFile h' (s1\<lparr>piped := p\<rparr>))) w)"
      if "x = Inr td" for h' p td
      using less [of "s1\<lparr>piped := p\<rparr>" h'] lt [OF that] by (simp add: mix_piped)
    show ?case
      using only_readsD [OF only_reads_recvToken x, of w] x again
      by (subst (1 2 3) recv_loop.simps)
        (auto simp: ebind_def pipe_Write_def Let_def split: sum.split option.split)
  qed
  then show ?thesis by (rule only_readsI)
qed

lemma only_reads_recvFile1: "only_reads (recvFile1 E f)"
proof -
  have "only_reads (receiveData E f l)" for l
    unfolding receiveData_def
  proof (intro only_reads_ebind only_reads_ReadFrom only_readsI)
    fix sh :: SumHead and s w :: recvr
    obtain x t where x: "recv_loop sh l (le_enc 4 (r_seed E)) (s\<lparr>piped := []\<rparr>) = (x, t)"
      by (cases "recv_loop sh l (le_enc 4 (r_seed E)) (s\<lparr>piped := []\<rparr>)")
    let ?m = "\<lambda>localSum. ebind (ReadFull (length localSum)) (\<lambda>remoteSum.
        if localSum \<noteq> remoteSum then fail (Errorf ''file corruption'') else ret ()) :: (recvr, unit) io"
    have m: "only_reads (?m localSum)" for localSum by (intro only_reads_ebind) simp_all
    from only_readsD [OF only_reads_recv_loop x, of w]
    have "recv_loop sh l (le_enc 4 (r_seed E)) (mix s w\<lparr>piped := []\<rparr>) = (x, mix t w)" by (simp add: mix_piped)
    then show "(case recv_loop sh l (le_enc 4 (r_seed E)) (mix s w\<lparr>piped := []\<rparr>) of
          (Inl e, s') \<Rightarrow> (Inl e, put_done E f False s')
        | (Inr h, s') \<Rightarrow> let localSum = r_md4 E h in ?m localSum (put_done E f True s')) =
      (fst (case recv_loop sh l (le_enc 4 (r_seed E)) (s\<lparr>piped := []\<rparr>) of
          (Inl e, s') \<Rightarrow> (Inl e, put_done E f False s')
        | (Inr h, s') \<Rightarrow> let localSum = r_md4 E h in ?m localSum (put_done E f True s')),
       mix (snd (case recv_loop sh l (le_enc 4 (r_seed E)) (s\<lparr>piped := []\<rparr>) of
          (Inl e, s') \<Rightarrow> (Inl e, put_done E f False s')
        | (Inr h, s') \<Rightarrow> let localSum = r_md4 E h in ?m localSum (put_done E f True s'))) w)"
      using x m by (cases x) (simp_all add: mix_put Let_def only_reads_def)
  qed
  then show ?thesis unfolding recvFile1_def by simp
qed

lemma only_reads_RecvFiles: "only_reads (RecvFiles E fileList phase)"
proof -
  have "RecvFiles E fileList phase (mix s w) =
      (fst (RecvFiles E fileList phase s), mix (snd (RecvFiles E fileList phase s)) w)" for s w phase
  proof (induction "length (rx s)" arbitrary: phase s rule: less_induct)
    case less
    obtain x s1 where x: "ReadInt32 s = (x, s1)" by (cases "ReadInt32 s")
    note xw = only_readsD [OF only_reads_ReadInt32 x, of w]
    show ?case
    proof (cases x)
      case (Inl e)
      with x xw show ?thesis by (subst (1 2 3) RecvFiles.simps) (simp add: ebind_def)
    next
      case (Inr idx)
      have lt: "length (rx s1) < length (rx s)" using x Inr ReadInt32_consumes by blast
      have again: "RecvFiles E fileList phase' (mix s2 w) =
          (fst (RecvFiles E fileList phase' s2), mix (snd (RecvFiles E fileList phase' s2)) w)"
        if "length (rx s2) \<le> length (rx s1)" for s2 phase'
        using less that lt by simp
      show ?thesis
      proof (cases "idx = -1 \<or> \<not> (0 \<le> sint idx \<and> sint idx < int (length fileList))")
        case True
        with x xw Inr again [of s1 1] show ?thesis
          by (subst (1 2 3) RecvFiles.simps) (auto simp: ebind_def fileList_at_def)
      next
        case False
        let ?f = "fileList ! nat (sint idx)"
        obtain y s2 where y: "recvFile1 E ?f s1 = (y, s2)" by (cases "recvFile1 E ?f s1")
        have "length (rx s2) \<le> length (rx s1)"
          by (rule shrinksD [where m = "recvFile1 E ?f", OF shrinks_recvFile1 y])
        with x xw Inr y only_readsD [OF only_reads_recvFile1 y, of w] again [of s2 phase] False show ?thesis
          by (subst (1 2 3) RecvFiles.simps) (cases y, simp_all add: ebind_def fileList_at_def)
      qed
    qed
  qed
  then show ?thesis by (intro only_readsI) 
qed

section \<open>The order does not matter\<close>

text \<open>Either goroutine first: the same results, the same bytes on the wire, the same files stored.\<close>

lemma both_swap:
  "both gen_first (GenerateFiles E fileList) (RecvFiles E fileList 0) s =
   both (\<not> gen_first) (RecvFiles E fileList 0) (GenerateFiles E fileList) s"
proof -
  let ?g = "GenerateFiles E fileList" and ?r = "RecvFiles E fileList 0"
  obtain eg s1 er t1 where gr: "?g s = (eg, s1)" "?r s = (er, t1)" by fastforce
  obtain er' s2 eg' t2 where rg: "?r s1 = (er', s2)" "?g t1 = (eg', t2)" by fastforce
  have "eg' = eg" "er' = er" "s2 = t2"
    using only_commute [OF only_writes_GenerateFiles [of E fileList] only_reads_RecvFiles [of E fileList 0], of s] gr rg
    by simp_all
  with gr rg show ?thesis by (cases eg; cases er) (simp_all add: both_def)
qed

section \<open>Every schedule\<close>

text \<open>
  The two goroutines as a state machine: where the generator is in the list, in which phase the
  receiver is, and the shared state.  A step is one file of the generator (or its end marks) or one
  round of the receiver's loop; the scheduler picks.
\<close>

datatype gen_pos = GenAt nat "ReceiverFile list" | GenEnded "err + unit"
datatype rcv_pos = RcvAt nat | RcvEnded "err + unit"

definition gen_finish :: "(recvr, unit) io" where
  "gen_finish = ebind (WriteInt32 (-1)) (\<lambda>_. WriteInt32 (-1))"

definition RecvFiles_round :: "recv_env \<Rightarrow> ReceiverFile list \<Rightarrow> nat \<Rightarrow> (recvr, nat option) io" where
  "RecvFiles_round E fileList phase =
     ebind ReadInt32 (\<lambda>idx.
       if idx = -1 then (if phase = 0 then ret (Some (phase + 1)) else ret None)
       else ebind (fileList_at fileList idx) (\<lambda>f.
            ebind (recvFile1 E f) (\<lambda>_. ret (Some phase))))"

inductive do_step ::
  "recv_env \<Rightarrow> ReceiverFile list \<Rightarrow> gen_pos \<times> rcv_pos \<times> recvr \<Rightarrow> gen_pos \<times> rcv_pos \<times> recvr \<Rightarrow> bool"
  for E fileList where
  gen_file: "recvGenerator E idx f s = (Inr u, t) \<Longrightarrow>
     do_step E fileList (GenAt idx (f # fs), r, s) (GenAt (idx + 1) fs, r, t)"
| gen_fail: "recvGenerator E idx f s = (Inl e, t) \<Longrightarrow>
     do_step E fileList (GenAt idx (f # fs), r, s) (GenEnded (Inl e), r, t)"
| gen_end: "gen_finish s = (x, t) \<Longrightarrow>
     do_step E fileList (GenAt idx [], r, s) (GenEnded x, r, t)"
| rcv_round: "RecvFiles_round E fileList phase s = (Inr (Some phase'), t) \<Longrightarrow>
     do_step E fileList (g, RcvAt phase, s) (g, RcvAt phase', t)"
| rcv_end: "RecvFiles_round E fileList phase s = (Inr None, t) \<Longrightarrow>
     do_step E fileList (g, RcvAt phase, s) (g, RcvEnded (Inr ()), t)"
| rcv_fail: "RecvFiles_round E fileList phase s = (Inl e, t) \<Longrightarrow>
     do_step E fileList (g, RcvAt phase, s) (g, RcvEnded (Inl e), t)"

inductive_cases do_step_ended: "do_step E fileList (GenEnded x, RcvEnded y, s) c"

lemma RecvFiles_by_rounds:
  "RecvFiles E fileList phase s =
     (case RecvFiles_round E fileList phase s of
        (Inl e, t) \<Rightarrow> (Inl e, t)
      | (Inr None, t) \<Rightarrow> (Inr (), t)
      | (Inr (Some phase'), t) \<Rightarrow> RecvFiles E fileList phase' t)"
  by (subst RecvFiles.simps) (auto simp: RecvFiles_round_def ebind_def split: prod.split sum.split)

text \<open>What is left to do, run without interruption.\<close>

fun gen_rest :: "recv_env \<Rightarrow> gen_pos \<Rightarrow> (recvr, unit) io" where
  "gen_rest E (GenAt idx fs) = ebind (GenerateFiles_loop E idx fs) (\<lambda>_. gen_finish)"
| "gen_rest E (GenEnded x) = (\<lambda>s. (x, s))"

fun rcv_rest :: "recv_env \<Rightarrow> ReceiverFile list \<Rightarrow> rcv_pos \<Rightarrow> (recvr, unit) io" where
  "rcv_rest E fileList (RcvAt phase) = RecvFiles E fileList phase"
| "rcv_rest E fileList (RcvEnded y) = (\<lambda>s. (y, s))"

definition outcome :: "recv_env \<Rightarrow> ReceiverFile list \<Rightarrow> gen_pos \<times> rcv_pos \<times> recvr \<Rightarrow> (err + unit) \<times> (err + unit) \<times> recvr" where
  "outcome E fileList c =
     (case c of (g, r, s) \<Rightarrow>
        (case gen_rest E g s of (x, s1) \<Rightarrow> (case rcv_rest E fileList r s1 of (y, s2) \<Rightarrow> (x, y, s2))))"

lemma only_writes_gen_rest: "only_writes (gen_rest E g)"
proof (cases g)
  case (GenAt idx fs)
  have "only_writes (GenerateFiles_loop E idx fs)" for idx fs
    by (induction fs arbitrary: idx) (auto intro!: only_writes_ebind only_writes_recvGenerator)
  with GenAt show ?thesis by (auto simp: gen_finish_def intro!: only_writes_ebind)
qed (simp add: only_writes_def)

lemma only_reads_rcv_rest: "only_reads (rcv_rest E fileList r)"
  by (cases r) (simp_all add: only_reads_RecvFiles, simp add: only_reads_def)

lemma outcome_swapped:
  "outcome E fileList (g, r, s) =
     (case rcv_rest E fileList r s of (y, s1) \<Rightarrow> (case gen_rest E g s1 of (x, s2) \<Rightarrow> (x, y, s2)))"
  using only_commute [OF only_writes_gen_rest [of E g] only_reads_rcv_rest [of E fileList r], of s]
  by (simp add: outcome_def case_prod_beta prod_eq_iff)

text \<open>The invariant of the machine: no step changes the outcome.\<close>

lemma do_step_outcome: "do_step E fileList c c' \<Longrightarrow> outcome E fileList c' = outcome E fileList c"
proof (induction rule: do_step.induct)
  case (rcv_round phase s phase' t g)
  then show ?case by (simp add: outcome_swapped RecvFiles_by_rounds [of E fileList phase s])
next
  case (rcv_end phase s t g)
  then show ?case by (simp add: outcome_swapped RecvFiles_by_rounds [of E fileList phase s])
next
  case (rcv_fail phase s e t g)
  then show ?case by (simp add: outcome_swapped RecvFiles_by_rounds [of E fileList phase s])
qed (simp_all add: outcome_def ebind_def)

lemma steps_outcome: "(do_step E fileList)\<^sup>*\<^sup>* c c' \<Longrightarrow> outcome E fileList c' = outcome E fileList c"
  by (induction rule: rtranclp_induct) (simp_all add: do_step_outcome)

text \<open>Every step brings the end nearer.\<close>

fun togo :: "gen_pos \<times> rcv_pos \<times> recvr \<Rightarrow> nat" where
  "togo (g, r, s) = (case g of GenAt idx fs \<Rightarrow> length fs + 1 | GenEnded x \<Rightarrow> 0) +
     (case r of RcvAt phase \<Rightarrow> 1 | RcvEnded y \<Rightarrow> 0) + length (rx s)"

lemma RecvFiles_round_shrinks:
  assumes "RecvFiles_round E fileList phase s = (x, t)"
  shows "length (rx t) \<le> length (rx s)" and "x = Inr y \<Longrightarrow> length (rx t) < length (rx s)"
proof -
  obtain i s1 where i: "ReadInt32 s = (i, s1)" by (cases "ReadInt32 s")
  have le: "length (rx s1) \<le> length (rx s)"
    by (rule shrinksD [where m = ReadInt32, OF shrinks_reads [OF reads_only_ReadInt32] i])
  have rf: "length (rx t') \<le> length (rx s1)" if "recvFile1 E f s1 = (z, t')" for f z t'
    by (rule shrinksD [where m = "recvFile1 E f", OF shrinks_recvFile1 that])
  have lt: "length (rx s1) < length (rx s)" if "i = Inr idx" for idx using i that ReadInt32_consumes by blast
  show "length (rx t) \<le> length (rx s)" "x = Inr y \<Longrightarrow> length (rx t) < length (rx s)"
    using assms i le lt by (auto simp: RecvFiles_round_def ebind_def fileList_at_def
        split: sum.splits if_splits prod.splits dest!: rf)
qed

lemma do_step_togo: "do_step E fileList c c' \<Longrightarrow> togo c' < togo c"
proof (induction rule: do_step.induct)
  case (gen_file idx f s u t fs r)
  with only_writes_read_side [OF only_writes_recvGenerator, of s E idx f] have "rx t = rx s" by (metis mix_fields(1) snd_conv)
  then show ?case by simp
next
  case (gen_fail idx f s e t fs r)
  with only_writes_read_side [OF only_writes_recvGenerator, of s E idx f] have "rx t = rx s" by (metis mix_fields(1) snd_conv)
  then show ?case by simp
next
  case (gen_end s x t idx r)
  have "only_writes gen_finish" unfolding gen_finish_def by (intro only_writes_ebind) simp_all
  with gen_end only_writes_read_side [of gen_finish s] have "rx t = rx s" by (metis mix_fields(1) snd_conv)
  then show ?case by simp
qed (auto dest: RecvFiles_round_shrinks)

lemma do_step_progress:
  assumes "\<And>c'. \<not> do_step E fileList (g, r, s) c'"
  shows "\<exists>x y. g = GenEnded x \<and> r = RcvEnded y"
proof -
  have "g = GenEnded x" if "g = GenAt idx fs" for x idx fs
  proof (cases fs)
    case Nil
    then show ?thesis using assms gen_end that by (cases "gen_finish s") blast
  next
    case (Cons f fs')
    obtain z t where "recvGenerator E idx f s = (z, t)" by (cases "recvGenerator E idx f s")
    then show ?thesis using assms gen_file gen_fail that Cons by (cases z) blast+
  qed
  moreover have "r = RcvEnded y" if "r = RcvAt phase" for y phase
  proof -
    obtain z t where z: "RecvFiles_round E fileList phase s = (z, t)" by (cases "RecvFiles_round E fileList phase s")
    show ?thesis
    proof (cases z)
      case (Inl e)
      then show ?thesis using assms rcv_fail z that by blast
    next
      case (Inr o')
      then show ?thesis using assms rcv_round rcv_end z that by (cases o') blast+
    qed
  qed
  ultimately show ?thesis by (cases g; cases r) blast+
qed

lemma do_step_completes: "\<exists>x y t. (do_step E fileList)\<^sup>*\<^sup>* c (GenEnded x, RcvEnded y, t)"
proof (induction "togo c" arbitrary: c rule: less_induct)
  case less
  show ?case
  proof (cases "\<exists>c'. do_step E fileList c c'")
    case True
    then obtain c' where c': "do_step E fileList c c'" by blast
    from less [OF do_step_togo [OF c']] c' show ?thesis by (meson converse_rtranclp_into_rtranclp)
  next
    case False
    obtain g r s where c: "c = (g, r, s)" by (cases c)
    with False do_step_progress [of E fileList g r s] show ?thesis by blast
  qed
qed



end
