(* ===== verification/FileListSpec.thy ===== *)
theory FileListSpec
  imports SendList
begin

unbundle bit_operations_syntax

text \<open>
  The receiver reads back the file list the sender writes: entry by entry, then the empty id lists
  and the error flag.  The two sides must agree on the options that add fields (\<open>opts_agree\<close>).
\<close>

section \<open>Modes across the wire\<close>

text \<open>The types Go's \<open>os\<close> package reports for a file: one of these.\<close>

definition mode_ok :: "u32 \<Rightarrow> bool" where
  "mode_ok m \<longleftrightarrow> m AND ModeType \<in> {0, ModeDir, ModeSymlink, ModeDevice, ModeDevice OR ModeCharDevice,
     ModeNamedPipe, ModeSocket}"

text \<open>The type bits of the mode that goes over the wire.\<close>

definition wire_type :: "u32 \<Rightarrow> i32" where
  "wire_type ty =
     (if ty = 0 then S_IFREG else if ty = ModeDir then S_IFDIR else if ty = ModeSymlink then S_IFLNK
      else if ty = ModeDevice then S_IFBLK else if ty = ModeDevice OR ModeCharDevice then S_IFCHR
      else if ty = ModeNamedPipe then S_IFIFO else S_IFSOCK)"

lemma IsDir_type: "IsDir m \<longleftrightarrow> (m AND ModeType) AND ModeDir \<noteq> 0"
proof -
  have "ModeType AND ModeDir = (ModeDir :: u32)" by (simp add: Mode_defs)
  then show ?thesis by (simp add: IsDir_def and.assoc)
qed

lemma entry_mode_ok:
  assumes "mode_ok m"
  shows "entry_mode m = (m AND ModePerm) OR wire_type (m AND ModeType)"
proof -
  define ty where "ty = m AND ModeType"
  have "ty \<in> {0, ModeDir, ModeSymlink, ModeDevice, ModeDevice OR ModeCharDevice, ModeNamedPipe, ModeSocket}"
    using assms by (simp add: mode_ok_def ty_def)
  then show ?thesis
    unfolding entry_mode_def Let_def IsDir_type IsRegular_def ty_def [symmetric]
    by (elim insertE emptyE) (simp_all add: Mode_defs wire_type_def)
qed

lemma perm_no_fmt: "(x AND ModePerm) AND S_IFMT = (0 :: u32)"
proof -
  have "ModePerm AND S_IFMT = (0 :: u32)" by (simp add: Mode_defs S_IF_defs)
  then show ?thesis by (simp add: and.assoc)
qed

lemma entry_mode_type:
  assumes "mode_ok m" shows "entry_mode m AND S_IFMT = wire_type (m AND ModeType)"
proof -
  have "wire_type ty AND S_IFMT = wire_type ty" for ty by (simp add: wire_type_def S_IF_defs)
  then show ?thesis
    unfolding entry_mode_ok [OF assms] by (simp add: bit.conj_disj_distrib2 perm_no_fmt)
qed

lemma wire_type_kinds:
  assumes "mode_ok m"
  shows "(wire_type (m AND ModeType) = S_IFCHR \<or> wire_type (m AND ModeType) = S_IFBLK) = entry_isDev m"
    and "(wire_type (m AND ModeType) = S_IFIFO \<or> wire_type (m AND ModeType) = S_IFSOCK) = entry_isSpecial m"
    and "(wire_type (m AND ModeType) = S_IFLNK) = ((m AND ModeType) AND ModeSymlink \<noteq> 0)"
proof -
  define ty where "ty = m AND ModeType"
  have "ty \<in> {0, ModeDir, ModeSymlink, ModeDevice, ModeDevice OR ModeCharDevice, ModeNamedPipe, ModeSocket}"
    using assms by (simp add: mode_ok_def ty_def)
  then have "((wire_type ty = S_IFCHR \<or> wire_type ty = S_IFBLK) = (ty AND ModeCharDevice \<noteq> 0 \<or> ty AND ModeDevice \<noteq> 0)) \<and>
      ((wire_type ty = S_IFIFO \<or> wire_type ty = S_IFSOCK) = (ty AND ModeNamedPipe \<noteq> 0 \<or> ty AND ModeSocket \<noteq> 0)) \<and>
      ((wire_type ty = S_IFLNK) = (ty AND ModeSymlink \<noteq> 0))"
    by (elim insertE emptyE) (simp_all add: Mode_defs wire_type_def S_IF_defs)
  then show "(wire_type (m AND ModeType) = S_IFCHR \<or> wire_type (m AND ModeType) = S_IFBLK) = entry_isDev m"
    and "(wire_type (m AND ModeType) = S_IFIFO \<or> wire_type (m AND ModeType) = S_IFSOCK) = entry_isSpecial m"
    and "(wire_type (m AND ModeType) = S_IFLNK) = ((m AND ModeType) AND ModeSymlink \<noteq> 0)"
    unfolding entry_isDev_def entry_isSpecial_def ty_def by auto
qed

text \<open>Permissions and type survive the trip, but a character device comes back without \<open>ModeDevice\<close>.\<close>

lemma FileMode_entry_mode:
  assumes "mode_ok m" and "Mode f = entry_mode m"
  shows "FileMode f = (m AND ModePerm) OR
    (if m AND ModeType = ModeDevice OR ModeCharDevice then ModeCharDevice else m AND ModeType)"
proof -
  define ty where "ty = m AND ModeType"
  have ty: "ty \<in> {0, ModeDir, ModeSymlink, ModeDevice, ModeDevice OR ModeCharDevice, ModeNamedPipe, ModeSocket}"
    using assms(1) by (simp add: mode_ok_def ty_def)
  have "wire_type ty AND ModePerm = 0" by (simp add: wire_type_def S_IF_defs Mode_defs)
  then have p: "entry_mode m AND ModePerm = m AND ModePerm"
    unfolding entry_mode_ok [OF assms(1)] ty_def [symmetric]
    by (simp add: bit.conj_disj_distrib2 and.assoc)
  show ?thesis
    unfolding FileMode_def Let_def assms(2) p entry_mode_type [OF assms(1)] ty_def [symmetric]
    using ty by (elim insertE emptyE) (simp_all add: wire_type_def S_IF_defs Mode_defs)
qed

section \<open>One entry\<close>

definition opts_agree :: "Options \<Rightarrow> TransferOpts \<Rightarrow> bool" where
  "opts_agree opt t \<longleftrightarrow>
     PreserveUid t = o_PreserveUid opt \<and> PreserveGid t = o_PreserveGid opt \<and>
     PreserveLinks t = o_PreserveLinks opt \<and> PreserveDevices t = o_PreserveDevices opt \<and>
     o_PreserveSpecials opt = o_PreserveDevices opt \<and> \<not> o_AlwaysChecksum opt"

definition is_symlink :: "FileInfo \<Rightarrow> bool" where
  "is_symlink i \<longleftrightarrow> (fiMode i AND ModeType) AND ModeSymlink \<noteq> 0"

definition link_target :: "list_env \<Rightarrow> Options \<Rightarrow> FileInfo \<Rightarrow> bytes" where
  "link_target E opt i =
     (if o_PreserveLinks opt \<and> is_symlink i
      then (case l_readlink E (fiName i) of Inl e \<Rightarrow> [] | Inr t \<Rightarrow> t) else [])"

text \<open>The entries that can be sent: a name that fits, a sane mode, and a link that can be read.\<close>

definition entry_ok :: "list_env \<Rightarrow> Options \<Rightarrow> FileInfo \<Rightarrow> bool" where
  "entry_ok E opt i \<longleftrightarrow>
     length (fst (entry_name (fiName i))) < 4096 \<and> mode_ok (fiMode i) \<and>
     (o_PreserveLinks opt \<and> is_symlink i \<longrightarrow>
        (\<exists>t. l_readlink E (fiName i) = Inr t \<and> length t < 2 ^ 31))"

text \<open>What the receiver makes of an entry.\<close>

definition received :: "list_env \<Rightarrow> Options \<Rightarrow> FileInfo \<Rightarrow> ReceiverFile" where
  "received E opt i =
     \<lparr>Name = Clean (fst (entry_name (fiName i))), Length = entry_size i,
      ModTime = unix_time (word_of_int (fiModTime i div 10 ^ 9)), Mode = entry_mode (fiMode i),
      Uid = (if o_PreserveUid opt then 1000 else 0), Gid = (if o_PreserveGid opt then 1000 else 0),
      LinkTarget = link_target E opt i,
      Rdev = (if o_PreserveDevices opt \<and> (entry_isDev (fiMode i) \<or> entry_isSpecial (fiMode i))
              then 1000 else 0)\<rparr>"

definition enc_entry :: "list_env \<Rightarrow> Options \<Rightarrow> FileInfo \<Rightarrow> bytes" where
  "enc_entry E opt i =
     (le_enc 4 (word_of_nat (length (fst (entry_name (fiName i)))) :: i32) @ fst (entry_name (fiName i))) @
     enc64 (entry_size i) @ le_enc 4 (word_of_int (fiModTime i div 10 ^ 9) :: i32) @
     le_enc 4 (entry_mode (fiMode i)) @
     (if o_PreserveUid opt then le_enc 4 (1000 :: i32) else []) @
     (if o_PreserveGid opt then le_enc 4 (1000 :: i32) else []) @
     (if o_PreserveDevices opt \<and> (entry_isDev (fiMode i) \<or> entry_isSpecial (fiMode i))
      then le_enc 4 (1000 :: i32) else []) @
     (if o_PreserveLinks opt \<and> is_symlink i
      then le_enc 4 (word_of_nat (length (link_target E opt i)) :: i32) @ link_target E opt i else [])"

definition entry_flags :: "FileInfo \<Rightarrow> byte" where
  "entry_flags i = snd (entry_name (fiName i))"

lemma entry_flags_bits:
  "(ucast (entry_flags i) :: u16) AND XMIT_SAME_NAME = 0" "(ucast (entry_flags i) :: u16) AND XMIT_LONG_NAME \<noteq> 0"
  "(ucast (entry_flags i) :: u16) AND XMIT_SAME_TIME = 0" "(ucast (entry_flags i) :: u16) AND XMIT_SAME_MODE = 0"
  "(ucast (entry_flags i) :: u16) AND XMIT_SAME_UID = 0" "(ucast (entry_flags i) :: u16) AND XMIT_SAME_GID = 0"
  "(ucast (entry_flags i) :: u16) AND XMIT_SAME_RDEV_pre28 = 0" "entry_flags i \<noteq> 0"
  by (simp_all add: entry_flags_def entry_name_def XMIT_defs)

lemma reads_name:
  assumes "entry_ok E opt i"
  shows "reads (receive_name (ucast (entry_flags i)) lst) (Clean (fst (entry_name (fiName i))))
    (le_enc 4 (word_of_nat (length (fst (entry_name (fiName i)))) :: i32) @ fst (entry_name (fiName i)))"
proof -
  let ?n = "fst (entry_name (fiName i))"
  have l: "length ?n < 4096" using assms by (simp add: entry_ok_def)
  have s: "sint (word_of_nat (length ?n) :: i32) = int (length ?n)"
    using l by (intro sint_word_of_nat32) simp
  have len: "reads (ebind ReadInt32 (\<lambda>l. ret (sint l))) (int (length ?n)) (le_enc 4 (word_of_nat (length ?n) :: i32))"
    using reads_map [OF reads_ReadInt32, where f = sint and x = "word_of_nat (length ?n)"] s by simp
  have rest: "reads (ebind (ReadFull (length ?n)) (\<lambda>rest. ret (Clean rest))) (Clean ?n) ?n"
    by (rule reads_map [OF reads_ReadFull]) simp
  have "reads (ebind (ebind ReadInt32 (\<lambda>l. ret (sint l))) (\<lambda>l2.
      if l2 \<ge> PATH_MAX then fail (Errorf ''overflow'')
      else if l2 < 0 then fail (Panic ''makeslice: len out of range'')
      else ebind (ReadFull (nat l2)) (\<lambda>rest. ret (Clean rest)))) (Clean ?n)
    (le_enc 4 (word_of_nat (length ?n) :: i32) @ ?n)"
    using l rest by (intro reads_ebind [OF len]) (simp add: PATH_MAX_def)
  then show ?thesis
    unfolding receive_name_def by (simp add: entry_flags_bits cong: if_cong)
qed

lemma reads_entry:
  assumes ok: "entry_ok E opt i" and a: "opts_agree opt t"
  shows "reads (receiveFileEntry t (ucast (entry_flags i)) lst) (received E opt i) (enc_entry E opt i)"
proof -
  have m: "mode_ok (fiMode i)" using ok by (simp add: entry_ok_def)
  let ?fl = "ucast (entry_flags i) :: u16"
  have time: "reads (if ?fl AND XMIT_SAME_TIME \<noteq> 0 then ret (ModTime lst) else ebind ReadInt32 (\<lambda>t. ret (unix_time t)))
      (unix_time x) (le_enc 4 x)" for x
    by (simp add: entry_flags_bits reads_map reads_ReadInt32)
  have fmode: "reads (if ?fl AND XMIT_SAME_MODE \<noteq> 0 then ret (Mode lst) else ReadInt32) x (le_enc 4 x)" for x
    by (simp add: entry_flags_bits reads_ReadInt32)
  have uid: "reads (if PreserveUid t then (if ?fl AND XMIT_SAME_UID \<noteq> 0 then ret (Uid lst) else ReadInt32) else ret 0)
      (if o_PreserveUid opt then x else 0) (if o_PreserveUid opt then le_enc 4 x else [])" for x
    using a by (simp add: entry_flags_bits opts_agree_def reads_ReadInt32 reads_ret)
  have gid: "reads (if PreserveGid t then (if ?fl AND XMIT_SAME_GID \<noteq> 0 then ret (Gid lst) else ReadInt32) else ret 0)
      (if o_PreserveGid opt then x else 0) (if o_PreserveGid opt then le_enc 4 x else [])" for x
    using a by (simp add: entry_flags_bits opts_agree_def reads_ReadInt32 reads_ret)
  have kinds: "((entry_mode (fiMode i) AND S_IFMT = S_IFCHR \<or> entry_mode (fiMode i) AND S_IFMT = S_IFBLK) \<or>
      entry_mode (fiMode i) AND S_IFMT = S_IFIFO \<or> entry_mode (fiMode i) AND S_IFMT = S_IFSOCK) =
      (entry_isDev (fiMode i) \<or> entry_isSpecial (fiMode i))"
    "(entry_mode (fiMode i) AND S_IFMT = S_IFLNK) = is_symlink i"
    using wire_type_kinds [OF m] by (auto simp: entry_mode_type [OF m] is_symlink_def)
  have rdev: "reads (if PreserveDevices t \<and> ((entry_mode (fiMode i) AND S_IFMT = S_IFCHR \<or>
        entry_mode (fiMode i) AND S_IFMT = S_IFBLK) \<or> entry_mode (fiMode i) AND S_IFMT = S_IFIFO \<or>
        entry_mode (fiMode i) AND S_IFMT = S_IFSOCK)
      then (if ?fl AND XMIT_SAME_RDEV_pre28 \<noteq> 0 then ret (Rdev lst) else ReadInt32) else ret 0)
      (if o_PreserveDevices opt \<and> (entry_isDev (fiMode i) \<or> entry_isSpecial (fiMode i)) then x else 0)
      (if o_PreserveDevices opt \<and> (entry_isDev (fiMode i) \<or> entry_isSpecial (fiMode i)) then le_enc 4 x else [])" for x
    unfolding kinds using a by (auto simp: entry_flags_bits opts_agree_def reads_ReadInt32 reads_ret)
  have link: "reads (if PreserveLinks t \<and> entry_mode (fiMode i) AND S_IFMT = S_IFLNK
        then ebind ReadInt32 (\<lambda>l. make_ReadFull (sint l)) else ret [])
      (link_target E opt i)
      (if o_PreserveLinks opt \<and> is_symlink i
       then le_enc 4 (word_of_nat (length (link_target E opt i)) :: i32) @ link_target E opt i else [])"
  proof (cases "o_PreserveLinks opt \<and> is_symlink i")
    case True
    then have "length (link_target E opt i) < 2 ^ 31" using ok by (auto simp: entry_ok_def link_target_def)
    then have "sint (word_of_nat (length (link_target E opt i)) :: i32) = int (length (link_target E opt i))"
      by (rule sint_word_of_nat32)
    with True a show ?thesis
      by (auto simp: kinds opts_agree_def intro!: reads_ebind [OF reads_ReadInt32] reads_make)
  next
    case False
    with a show ?thesis by (auto simp: kinds opts_agree_def link_target_def reads_ret)
  qed
  show ?thesis
    unfolding receiveFileEntry_def enc_entry_def received_def Let_def
    by (rule reads_ebind [OF reads_name [OF ok]], rule reads_ebind [OF reads_ReadInt64],
        rule reads_ebind [OF time], rule reads_ebind [OF fmode], rule reads_ebind [OF uid],
        rule reads_ebind [OF gid], rule reads_ebind [OF rdev], rule reads_map [OF link])
qed

section \<open>The whole list\<close>

definition kept :: "filterRuleList \<Rightarrow> FileInfo list \<Rightarrow> FileInfo list" where
  "kept excl is = filter (\<lambda>i. matches excl (fst (entry_name (fiName i))) = Inr False) is"

definition sender_entry :: "FileInfo \<Rightarrow> SenderFile" where
  "sender_entry i = \<lparr>Path = [slash], WPath = fst (entry_name (fiName i)), Regular = IsRegular (fiMode i)\<rparr>"

definition enc_list :: "list_env \<Rightarrow> Options \<Rightarrow> FileInfo list \<Rightarrow> bytes" where
  "enc_list E opt is = concat (map (\<lambda>i. entry_flags i # enc_entry E opt i) is)"

definition after_entries :: "list_env \<Rightarrow> Options \<Rightarrow> FileInfo list \<Rightarrow> list_state \<Rightarrow> list_state" where
  "after_entries E opt is st =
     st\<lparr>fec := fec st @ enc_list E opt is,
        flist := \<lparr>TotalSize = TotalSize (flist st) + sum_list (map entry_size is),
                  Files = Files (flist st) @ map sender_entry is\<rparr>\<rparr>"

lemma after_entries_append: "after_entries E opt js (after_entries E opt is st) = after_entries E opt (is @ js) st"
  by (simp add: after_entries_def enc_list_def add.assoc)

lemma write_fixed_enc:
  "write_fixed i b = b @ entry_flags i # (le_enc 4 (word_of_nat (length (fst (entry_name (fiName i)))) :: i32) @
     fst (entry_name (fiName i))) @ enc64 (entry_size i) @
     le_enc 4 (word_of_int (fiModTime i div 10 ^ 9) :: i32) @ le_enc 4 (entry_mode (fiMode i))"
  unfolding write_fixed_def entry_flags_def Buffer_WriteInt64_append
  by (simp add: Buffer_WriteByte_def Buffer_WriteInt32_def Buffer_WriteString_def split: prod.split)

lemma write_ids_enc:
  "o_PreserveSpecials opt = o_PreserveDevices opt \<Longrightarrow>
   write_ids E opt i st = st\<lparr>fec := fec st @
     (if o_PreserveUid opt then le_enc 4 (1000 :: i32) else []) @
     (if o_PreserveGid opt then le_enc 4 (1000 :: i32) else []) @
     (if o_PreserveDevices opt \<and> (entry_isDev (fiMode i) \<or> entry_isSpecial (fiMode i))
      then le_enc 4 (1000 :: i32) else [])\<rparr>"
  by (auto simp: write_ids_def Let_def note_id_def uidFromFileInfo_def gidFromFileInfo_def
      rdevFromFileInfo_def Buffer_WriteInt32_def)

lemma send_entry_ok:
  assumes m: "matches excl (fst (entry_name (fiName i))) = Inr False"
    and ok: "entry_ok E opt i" and a: "opts_agree opt t"
  shows "send_entry E opt excl i st = Inr (after_entries E opt [i] st)"
proof -
  have sp: "o_PreserveSpecials opt = o_PreserveDevices opt" and nc: "\<not> o_AlwaysChecksum opt"
    using a by (simp_all add: opts_agree_def)
  show ?thesis
  proof (cases "o_PreserveLinks opt \<and> is_symlink i")
    case True
    then obtain tg where "l_readlink E (fiName i) = Inr tg" using ok by (auto simp: entry_ok_def)
    with True m nc show ?thesis
      by (simp add: send_entry_def Let_def write_ids_enc [OF sp] write_fixed_enc write_checksum_def
          after_entries_def enc_list_def enc_entry_def sender_entry_def link_target_def is_symlink_def
          Buffer_WriteInt32_def Buffer_WriteString_def)
  next
    case False
    with m nc show ?thesis
      by (auto simp: send_entry_def Let_def write_ids_enc [OF sp] write_fixed_enc write_checksum_def
          after_entries_def enc_list_def enc_entry_def sender_entry_def is_symlink_def)
  qed
qed

lemma send_entries_ok:
  assumes "\<forall>i \<in> set is. matches excl (fst (entry_name (fiName i))) \<in> range Inr"
    and "\<forall>i \<in> set (kept excl is). entry_ok E opt i" and a: "opts_agree opt t"
  shows "send_entries E opt excl is st = Inr (after_entries E opt (kept excl is) st)"
  using assms(1,2)
proof (induction "is" arbitrary: st)
  case Nil
  show ?case by (simp add: after_entries_def kept_def enc_list_def)
next
  case (Cons i "is")
  let ?m = "matches excl (fst (entry_name (fiName i)))"
  have IH: "send_entries E opt excl is s = Inr (after_entries E opt (kept excl is) s)" for s
    using Cons by (simp add: kept_def split: if_splits)
  from Cons.prems(1) obtain b where b: "?m = Inr b" by auto
  show ?case
  proof (cases b)
    case True
    with b have "send_entry E opt excl i st = Inr st" by (simp add: send_entry_def)
    with True b show ?thesis by (simp add: IH kept_def)
  next
    case False
    with b have m: "?m = Inr False" by simp
    then have "entry_ok E opt i" using Cons.prems(2) by (simp add: kept_def)
    with m show ?thesis
      using after_entries_append [of E opt "kept excl is" "[i]" st]
      by (simp add: send_entry_ok [OF m _ a] IH kept_def)
  qed
qed

text \<open>The entries of all the paths, in order.\<close>

definition entries_of :: "list_env \<Rightarrow> filterRuleList \<Rightarrow> bytes list \<Rightarrow> FileInfo list" where
  "entries_of E excl paths =
     kept excl (concat (map (\<lambda>p. case l_list E p of Inl e \<Rightarrow> [] | Inr is \<Rightarrow> is) paths))"

definition listable :: "list_env \<Rightarrow> Options \<Rightarrow> filterRuleList \<Rightarrow> bytes list \<Rightarrow> bool" where
  "listable E opt excl paths \<longleftrightarrow>
     (\<forall>p \<in> set paths. case l_list E p of Inl e \<Rightarrow> False
        | Inr is \<Rightarrow> (\<forall>i \<in> set is. matches excl (fst (entry_name (fiName i))) \<in> range Inr)) \<and>
     (\<forall>i \<in> set (entries_of E excl paths). entry_ok E opt i)"

lemma send_paths_ok:
  assumes "listable E opt excl paths" and a: "opts_agree opt t" and "lerr st = None"
  shows "send_paths E opt excl paths st = Inr (after_entries E opt (entries_of E excl paths) st)"
  using assms(1,3)
proof (induction paths arbitrary: st)
  case Nil
  then show ?case by (simp add: after_entries_def entries_of_def kept_def enc_list_def)
next
  case (Cons p paths)
  obtain fs where "is": "l_list E p = Inr fs"
    using Cons.prems(1) by (auto simp: listable_def split: sum.splits)
  have split: "entries_of E excl (p # paths) = kept excl fs @ entries_of E excl paths"
    by (simp add: entries_of_def kept_def "is")
  have m: "\<forall>i \<in> set fs. matches excl (fst (entry_name (fiName i))) \<in> range Inr"
    and ok: "\<forall>i \<in> set (kept excl fs). entry_ok E opt i" and rest: "listable E opt excl paths"
    using Cons.prems(1) by (simp_all add: listable_def split "is")
  let ?st = "after_entries E opt (kept excl fs) st"
  have st: "st\<lparr>lerr := None\<rparr> = st" "lerr ?st = None" using Cons.prems(2) by (simp_all add: after_entries_def)
  have "send_paths E opt excl (p # paths) st = send_paths E opt excl paths ?st"
    using send_entries_ok [OF m ok a, of st] st by (simp add: "is")
  also have "\<dots> = Inr (after_entries E opt (entries_of E excl (p # paths)) st)"
    unfolding Cons.IH [OF rest st(2)] after_entries_append split by (rule refl)
  finally show ?case .
qed

text \<open>The list on the wire: entries, end mark, an empty id list per preserved id, no I/O error.\<close>

definition list_message :: "list_env \<Rightarrow> Options \<Rightarrow> FileInfo list \<Rightarrow> bytes" where
  "list_message E opt is =
     (enc_list E opt is @ [0]) @ (if o_PreserveUid opt then le_enc 4 (0 :: i32) else []) @
     (if o_PreserveGid opt then le_enc 4 (0 :: i32) else []) @ le_enc 4 (0 :: i32)"

lemma SendFileList_ok:
  assumes l: "listable E opt excl paths" and a: "opts_agree opt t" and r: "room c = None"
  shows "SendFileList E opt paths excl c =
    (Inr \<lparr>TotalSize = sum_list (map entry_size (entries_of E excl paths)),
          Files = map sender_entry (entries_of E excl paths)\<rparr>,
     emit (list_message E opt (entries_of E excl paths)) c)"
  unfolding SendFileList_def
  by (subst send_paths_ok [OF l a])
    (simp_all add: r ebind_def WriteString_ok write_trailer_def write_id_map_def after_entries_def
      list_message_def Let_def Buffer_WriteByte_def Buffer_WriteInt32_def)

text \<open>The receiver's loop over the entries.\<close>

lemma reads_entries:
  "\<forall>i \<in> set is. entry_ok E opt i \<Longrightarrow> opts_agree opt t \<Longrightarrow>
   reads (receive_entries t lst :: ('z reader_scheme, _) io) (map (received E opt) is) (enc_list E opt is @ [0])"
proof (induction "is" arbitrary: lst)
  case Nil
  show ?case
    by (auto simp: reads_def enc_list_def receive_entries.simps ebind_def ReadByte_Cons)
next
  case (Cons i "is")
  let ?p = "enc_list E opt is @ [0]"
  have rest: "reads (receive_entries t (received E opt i) :: ('z reader_scheme, _) io) (map (received E opt) is) ?p"
    by (rule Cons.IH) (use Cons.prems in auto)
  have entry: "reads (receiveFileEntry t (ucast (entry_flags i)) lst :: ('z reader_scheme, _) io) (received E opt i) (enc_entry E opt i)"
    using Cons.prems by (intro reads_entry) simp_all
  show ?case
    unfolding reads_def
  proof (intro allI impI)
    fix s :: "'z reader_scheme" and q
    assume rx: "rx s = (enc_list E opt (i # is) @ [0]) @ q"
    then have rx: "rx s = entry_flags i # enc_entry E opt i @ ?p @ q" by (simp add: enc_list_def)
    have "rx (advance 1 s) = enc_entry E opt i @ ?p @ q" using rx by simp
    from readsD [OF entry this]
    have e: "receiveFileEntry t (ucast (entry_flags i)) lst (advance 1 s) =
        (Inr (received E opt i), advance (length (enc_entry E opt i)) (advance 1 s))" .
    have "rx (advance (length (enc_entry E opt i)) (advance 1 s)) = ?p @ q" using rx by simp
    from readsD [OF rest this] e rx
    show "receive_entries t lst s = (Inr (map (received E opt) (i # is)),
        advance (length (enc_list E opt (i # is) @ [0])) s)"
      by (subst receive_entries.simps)
        (simp add: ebind_def ReadByte_Cons [OF rx] entry_flags_bits enc_list_def add.commute add.left_commute)
  qed
qed

lemma reads_empty_ids: "reads (recvIdMapping1 f m) m (le_enc 4 (0 :: i32))"
  unfolding reads_def
  by (subst recvIdMapping1.simps) (simp add: ebind_def ReadInt32_enc)

lemma reads_id_lists:
  assumes "opts_agree opt t"
  shows "reads (if PreserveUid t \<or> PreserveGid t then ebind (RecvIdList t) (\<lambda>_. ret ()) else ret ()) ()
    ((if o_PreserveUid opt then le_enc 4 (0 :: i32) else []) @ (if o_PreserveGid opt then le_enc 4 (0 :: i32) else []))"
proof -
  have u: "reads (if b then recvIdMapping1 f Map.empty else ret Map.empty) Map.empty
      (if b then le_enc 4 (0 :: i32) else [])" for b f
    by (simp add: reads_empty_ids reads_ret)
  have "reads (RecvIdList t) (Map.empty, Map.empty)
    ((if PreserveUid t then le_enc 4 (0 :: i32) else []) @ (if PreserveGid t then le_enc 4 (0 :: i32) else []))"
    unfolding RecvIdList_def by (rule reads_ebind [OF u], rule reads_map [OF u])
  from reads_map [OF this, where f = "\<lambda>_. ()"] assms show ?thesis
    by (auto simp: opts_agree_def reads_ret)
qed

lemma ReceiveFileList_ok:
  fixes s :: recvr
  assumes ok: "\<forall>i \<in> set is. entry_ok E opt i" and a: "opts_agree opt t"
    and rx: "rx s = list_message E opt is @ q"
  shows "ReceiveFileList srt t s =
    (Inr (SortFileList srt (map (received E opt) is)), advance (length (list_message E opt is)) s\<lparr>IOErrors := 0\<rparr>)"
proof -
  let ?p = "enc_list E opt is @ [0]"
  let ?u = "(if o_PreserveUid opt then le_enc 4 (0 :: i32) else []) @ (if o_PreserveGid opt then le_enc 4 (0 :: i32) else [])"
  let ?s1 = "advance (length ?p) s" and ?s2 = "advance (length ?u) (advance (length ?p) s)"
  have rx0: "rx s = ?p @ ?u @ le_enc 4 (0 :: i32) @ q" using rx by (simp add: list_message_def)
  have 1: "receive_entries t l s = (Inr (map (received E opt) is), ?s1)" for l
    by (rule readsD [OF reads_entries [OF ok a] rx0])
  have "rx ?s1 = ?u @ le_enc 4 (0 :: i32) @ q" using rx0 by simp
  from readsD [OF reads_id_lists [OF a] this]
  have 2: "(if PreserveUid t \<or> PreserveGid t then ebind (RecvIdList t) (\<lambda>_. ret ()) else ret ()) ?s1 = (Inr (), ?s2)" .
  have "rx ?s2 = le_enc 4 (0 :: i32) @ q" using rx0 by simp
  then have 3: "ReadInt32 ?s2 = (Inr 0, advance 4 ?s2)" by (rule ReadInt32_enc)
  have len: "length (list_message E opt is) = length ?p + length ?u + 4" by (simp add: list_message_def)
  have 4: "ebind (receive_entries t l) f s = f (map (received E opt) is) ?s1" for l f
    by (rule ebind_Inr [where m = "receive_entries t l", OF 1])
  have 5: "ebind (if PreserveUid t \<or> PreserveGid t then ebind (RecvIdList t) (\<lambda>_. ret ()) else ret ()) f ?s1 = f () ?s2" for f
    by (rule ebind_Inr, rule 2)
  have 6: "ebind ReadInt32 f ?s2 = f 0 (advance 4 ?s2)" for f
    by (rule ebind_Inr, rule 3)
  show ?thesis
    unfolding ReceiveFileList_def Let_def 4 5 6 len
    by (simp add: add.assoc add.commute add.left_commute)
qed

section \<open>Id lists\<close>

text \<open>The entries as the receiver stores them: each remote id mapped to itself.\<close>

definition enter_ids :: "(i32 \<times> bytes) list \<Rightarrow> (i32 \<rightharpoonup> mapping) \<Rightarrow> (i32 \<rightharpoonup> mapping)" where
  "enter_ids = fold (\<lambda>(id, name) m. m(id \<mapsto> \<lparr>map_Name = name, LocalId = id\<rparr>))"

definition enc_id :: "i32 \<times> bytes \<Rightarrow> bytes" where
  "enc_id p = le_enc 4 (fst p) @ [word_of_nat (length (snd p))] @ snd p"

lemma write_id_map_enc: "write_id_map m b = b @ concat (map enc_id m) @ le_enc 4 (0 :: i32)"
proof -
  have "fold (\<lambda>(id, name) b. Buffer_WriteString name (Buffer_WriteByte (word_of_nat (length name)) (Buffer_WriteInt32 id b))) m b =
      b @ concat (map enc_id m)" for b
    by (induction m arbitrary: b)
      (auto simp: enc_id_def Buffer_WriteString_def Buffer_WriteByte_def Buffer_WriteInt32_def)
  then show ?thesis by (simp add: write_id_map_def Buffer_WriteInt32_def)
qed

lemma reads_ids:
  "\<forall>(id, name) \<in> set ids. id \<noteq> 0 \<and> length name < 256 \<Longrightarrow>
     reads (recvIdMapping1 (\<lambda>id name. id) m :: ('z reader_scheme, _) io) (enter_ids ids m)
       (concat (map enc_id ids) @ le_enc 4 (0 :: i32))"
proof (induction ids arbitrary: m)
  case Nil
  then show ?case using reads_empty_ids by (simp add: enter_ids_def)
next
  case (Cons p ids)
  obtain id name where p: "p = (id, name)" by (cases p)
  let ?m = "m(id \<mapsto> \<lparr>map_Name = name, LocalId = id\<rparr>)" and ?q = "concat (map enc_id ids) @ le_enc 4 (0 :: i32)"
  have rest: "reads (recvIdMapping1 (\<lambda>id name. id) ?m :: ('z reader_scheme, _) io) (enter_ids ids ?m) ?q"
    by (rule Cons.IH) (use Cons.prems in auto)
  have nz: "id \<noteq> 0" and len: "length name < 256" using Cons.prems p by auto
  have l: "unat (word_of_nat (length name) :: byte) = length name"
    using len by (simp add: unat_of_nat take_bit_nat_eq_self)
  show ?case
    unfolding reads_def
  proof (intro allI impI)
    fix s :: "'z reader_scheme" and q
    assume "rx s = (concat (map enc_id (p # ids)) @ le_enc 4 (0 :: i32)) @ q"
    then have rx: "rx s = le_enc 4 id @ word_of_nat (length name) # name @ ?q @ q" by (simp add: p enc_id_def)
    let ?s1 = "advance 4 s" and ?s2 = "advance 5 s"
    have r1: "ReadInt32 s = (Inr id, ?s1)" by (rule ReadInt32_enc [OF rx])
    have "rx ?s1 = word_of_nat (length name) # name @ ?q @ q" using rx by simp
    then have r2: "ReadByte ?s1 = (Inr (word_of_nat (length name)), ?s2)" using ReadByte_Cons by fastforce
    have "rx ?s2 = name @ ?q @ q" using rx by simp
    then have r3: "ReadFull (length name) ?s2 = (Inr name, advance (length name) ?s2)" by (rule ReadFull_append) simp
    have "rx (advance (length name) ?s2) = ?q @ q" using rx by simp
    from readsD [OF rest this] nz l
    show "recvIdMapping1 (\<lambda>id name. id) m s = (Inr (enter_ids (p # ids) m),
        advance (length (concat (map enc_id (p # ids)) @ le_enc 4 (0 :: i32))) s)"
      by (subst recvIdMapping1.simps)
        (simp add: ebind_def r1 r2 r3 p enter_ids_def enc_id_def add.commute add.left_commute)
  qed
qed

section \<open>What the file list promises\<close>


definition demo_info :: FileInfo where
  "demo_info = \<lparr>fiName = [97], fiSize = 4, fiMode = 420, fiModTime = 5 * 10 ^ 9\<rparr>"

definition demo_list :: list_env where
  "demo_list = \<lparr>l_list = (\<lambda>p. Inr [demo_info]), l_readlink = (\<lambda>p. Inl EOF), l_open = (\<lambda>p. None),
     l_user = (\<lambda>i. None), l_group = (\<lambda>i. None), l_md4 = (\<lambda>x. replicate 16 0)\<rparr>"

definition demo_opts :: Options where
  "demo_opts = \<lparr>ints = (\<lambda>n. 0), strs = (\<lambda>n. []), info = []\<rparr>"

lemma demo_opts_off:
  "o_PreserveUid demo_opts = False" "o_PreserveGid demo_opts = False" "o_PreserveLinks demo_opts = False"
  "o_PreserveDevices demo_opts = False" "o_PreserveSpecials demo_opts = False" "o_AlwaysChecksum demo_opts = False"
  by (simp_all add: demo_opts_def o_PreserveUid_def o_PreserveGid_def o_PreserveLinks_def
      o_PreserveDevices_def o_PreserveSpecials_def o_AlwaysChecksum_def)

lemma demo_opts_agree: "opts_agree demo_opts zero_TransferOpts"
  by (simp add: opts_agree_def demo_opts_off zero_TransferOpts_def)

lemma demo_entries: "entries_of demo_list [] [[47]] = [demo_info]"
  by (simp add: entries_of_def kept_def demo_list_def)

lemma demo_listable: "listable demo_list demo_opts [] [[47]]"
proof -
  have "l_list demo_list p = Inr [demo_info]" for p by (simp add: demo_list_def)
  moreover have "entry_ok demo_list demo_opts demo_info"
    by (simp add: entry_ok_def demo_opts_off mode_ok_def demo_info_def entry_name_def slash_def Mode_defs)
  ultimately show ?thesis by (auto simp: listable_def demo_entries)
qed


text \<open>
  C31: the mode of a file survives the trip through the wire format of the sender and FileMode of the
  receiver: permissions and type are kept, except that a character device loses its ModeDevice bit.
\<close>
theorem mode_survives:
  assumes "mode_ok (fiMode i)"
  shows "FileMode (received E opt i) = (fiMode i AND ModePerm) OR
    (if fiMode i AND ModeType = ModeDevice OR ModeCharDevice then ModeCharDevice else fiMode i AND ModeType)"
  by (rule FileMode_entry_mode [OF assms]) (simp add: received_def)

theorem mode_survives_witness:
  "FileMode (received demo_list demo_opts demo_info) = 420"
  using mode_survives [of demo_info demo_list demo_opts] by (simp add: demo_info_def mode_ok_def Mode_defs)

text \<open>
  C32: the id lists: what the sender writes for its user or group names (ids other than 0, names below
  256 bytes) the receiver stores, every id with its name and mapped to itself.
\<close>
theorem id_list_roundtrip:
  assumes "\<forall>(id, name) \<in> set ids. id \<noteq> 0 \<and> length name < 256" and "rx s = write_id_map ids [] @ q"
  shows "\<exists>s'. recvIdMapping1 (\<lambda>id name. id) Map.empty s = (Inr (enter_ids ids Map.empty), s') \<and> rx s' = q"
proof -
  have "rx s = (concat (map enc_id ids) @ le_enc 4 (0 :: i32)) @ q" using assms(2) by (simp add: write_id_map_enc)
  from readsD [OF reads_ids [OF assms(1)] this] this show ?thesis by auto
qed

theorem id_list_roundtrip_witness:
  "\<exists>s'. recvIdMapping1 (\<lambda>id name. id) Map.empty \<lparr>rx = write_id_map [(1000, [97, 98])] [] @ [1], nread = 0\<rparr> =
     (Inr (enter_ids [(1000, [97, 98])] Map.empty), s') \<and> rx s' = [1]"
  by (rule id_list_roundtrip) simp_all

end
