(* ===== verification/ClientSpec.thy ===== *)
theory ClientSpec
  imports Interleave FileListSpec
begin

text \<open>
  Whole sessions: the two \<open>Do\<close>s on each other's bytes, from the file list to the final goodbye, and
  the special case of an empty destination, for which nothing about the files has to be assumed
  beyond that the sender can read them.
\<close>

section \<open>The same order on both sides\<close>

definition entry_key :: "FileInfo \<Rightarrow> bytes" where
  "entry_key i = fst (entry_name (fiName i))"

text \<open>Each side sorts its own list; with clean and distinct names the indices agree.\<close>

lemma same_order:
  assumes s: "slice_sort srt_s WPath" and r: "slice_sort srt_r Name"
    and clean: "\<forall>i \<in> set K. Clean (entry_key i) = entry_key i" and dist: "distinct (map entry_key K)"
  shows "srt_s (map sender_entry K) = map sender_entry (sort_key entry_key K)"
    and "SortFileList srt_r (map (received L opt) K) = map (received L opt) (sort_key entry_key K)"
proof -
  have ks: "map WPath (map sender_entry xs) = map entry_key xs" for xs
    by (simp add: sender_entry_def entry_key_def)
  have kr: "map Name (map (received L opt) xs) = map entry_key xs" if "set xs = set K" for xs
    using clean that by (simp add: received_def entry_key_def)
  have so: "sorted (map entry_key (sort_key entry_key K))" by simp
  show "srt_s (map sender_entry K) = map sender_entry (sort_key entry_key K)"
  proof (rule slice_sort.unique [OF s])
    show "distinct (map WPath (map sender_entry K))" unfolding ks by (rule dist)
    show "sorted (map WPath (map sender_entry (sort_key entry_key K)))" unfolding ks by (rule so)
  qed simp
  have "srt_r (map (received L opt) K) = map (received L opt) (sort_key entry_key K)"
  proof (rule slice_sort.unique [OF r])
    show "distinct (map Name (map (received L opt) K))" unfolding kr [OF refl] by (rule dist)
    show "sorted (map Name (map (received L opt) (sort_key entry_key K)))"
      by (subst kr) (simp_all add: so)
  qed simp
  then show "SortFileList srt_r (map (received L opt) K) = map (received L opt) (sort_key entry_key K)"
    by (simp add: SortFileList_def)
qed

section \<open>Statistics and the end of a session\<close>

lemma WriteInt64_wrote:
  assumes "room c = None" obtains d where "WriteInt64 x c = (Inr (), d)" "wrote c (enc64 x) d"
  using WriteInt64_sent [OF assms] by blast

lemma reads_report:
  "reads report \<lparr>st_Read = a, st_Written = b, st_Size = c\<rparr> (enc64 a @ enc64 b @ enc64 c)"
  unfolding report_def
  by (rule reads_ebind [OF reads_ReadInt64], rule reads_ebind [OF reads_ReadInt64], rule reads_map [OF reads_ReadInt64])

lemma sender_end:
  fixes d :: transfer
  assumes d: "room d = None" "rx d = le_enc 4 (-1 :: i32) @ q"
  shows "\<exists>a b t st. send_stats cwr sz d = Some (Inr st, t) \<and>
     talked d (enc64 a @ enc64 b @ enc64 sz) q t \<and> st_Size st = sz"
proof -
  obtain d1 where d1: "WriteInt64 (word_of_nat (nread d)) d = (Inr (), d1)" "wrote d (enc64 (word_of_nat (nread d))) d1"
    using WriteInt64_wrote [OF d(1)] by blast
  let ?b = "word_of_int (BytesWritten (below cwr (tx d1))) :: i64"
  obtain d2 where d2: "WriteInt64 ?b d1 = (Inr (), d2)" "wrote d1 (enc64 ?b) d2"
    using WriteInt64_wrote [OF wrote_room [OF d1(2)]] by blast
  obtain d3 where d3: "WriteInt64 sz d2 = (Inr (), d3)" "wrote d2 (enc64 sz) d3"
    using WriteInt64_wrote [OF wrote_room [OF d2(2)]] by blast
  note w = wrote_trans [OF d1(2) wrote_trans [OF d2(2) d3(2)]]
  have "rx d3 = le_enc 4 (-1 :: i32) @ q" using w d(2) by (simp add: wrote_def)
  note fin = ReadInt32_enc [OF this]
  have "talked d (enc64 (word_of_nat (nread d)) @ enc64 ?b @ enc64 sz) q (advance 4 d3)"
    using w d by (simp add: talked_def wrote_def)
  moreover from d1(1) d2(1) d3(1) fin have "send_stats cwr sz d =
      Some (Inr \<lparr>st_Read = word_of_nat (nread (advance 4 d3)),
        st_Written = word_of_int (BytesWritten (below cwr (tx (advance 4 d3)))), st_Size = sz\<rparr>, advance 4 d3)"
    by (simp add: send_stats_def rbind_def lift_def)
  ultimately show ?thesis by fastforce
qed

section \<open>Requests and files\<close>

lemma requests_from_files:
  assumes "k + length fs \<le> 2 ^ 31" and "drop k fl = fs"
    and "\<And>j. j < length fl \<Longrightarrow> wanted E (fl ! j) \<Longrightarrow> cont (word_of_nat j) = C (fl ! j)"
  shows "map (\<lambda>x. (fl ! nat (sint (fst x)), cont (fst x), True)) (requests_from E k fs) =
    map (\<lambda>f. (f, C f, True)) (filter (wanted E) fs)"
  using assms(1,2)
proof (induction fs arbitrary: k)
  case Nil
  show ?case by simp
next
  case (Cons f fs)
  have k: "k < length fl" using Cons.prems(2) by (metis drop_all linorder_not_less list.distinct(1))
  with Cons.prems(2) have f: "fl ! k = f" "drop (k + 1) fl = fs"
    by (metis Cons_nth_drop_Suc list.inject) (metis Cons.prems(2) Suc_eq_plus1 drop_Suc list.sel(3) tl_drop)
  have "sint (word_of_nat k :: i32) = int k" using Cons.prems(1) by (intro sint_word_of_nat32) simp
  then show ?case using Cons.IH [of "k + 1"] Cons.prems(1) f assms(3) [OF k] by auto
qed

lemma requests_files:
  assumes "length fl \<le> 2 ^ 31"
    and "\<And>j. j < length fl \<Longrightarrow> wanted E (fl ! j) \<Longrightarrow> cont (word_of_nat j) = C (fl ! j)"
  shows "map (\<lambda>x. (fl ! nat (sint (fst x)), cont (fst x), True)) (requests E fl) =
    map (\<lambda>f. (f, C f, True)) (filter (wanted E) fl)"
  unfolding requests_def using assms by (intro requests_from_files) simp_all

lemma regular_received:
  assumes "mode_ok (fiMode i)"
  shows "IsRegular (FileMode (received L opt i)) \<longleftrightarrow> IsRegular (fiMode i)"
proof -
  let ?ty = "fiMode i AND ModeType"
  have "FileMode (received L opt i) AND ModeType =
      (if ?ty = ModeDevice OR ModeCharDevice then ModeCharDevice else ?ty)"
    by (subst FileMode_entry_mode [OF assms])
      (simp_all add: received_def bit.conj_disj_distrib2 perm_no_type and.assoc, simp add: Mode_defs)
  then show ?thesis unfolding IsRegular_def by (auto simp: Mode_defs)
qed

definition empty_dest :: "recv_env \<Rightarrow> bool" where
  "empty_dest V \<longleftrightarrow> (\<forall>f. r_read V f \<in> range Inl \<and> r_dest V \<noteq> []) \<and> (\<forall>f. r_limit V f = None)"

lemma empty_dest_wanted:
  assumes "empty_dest V"
  shows "wanted V f \<longleftrightarrow> IsRegular (FileMode f)" and "basis_of V f = None" and "copies_ok V fl"
proof -
  have "\<exists>e. local_copy V f = Inl e" for f using assms by (fastforce simp: empty_dest_def local_copy_def)
  then have *: "local_copy V f = Inl (projl (local_copy V f))" for f by (metis sum.sel(1))
  have "\<not> listOnly V" using assms by (auto simp: empty_dest_def listOnly_def)
  with * [of f] show "wanted V f \<longleftrightarrow> IsRegular (FileMode f)" "basis_of V f = None"
    unfolding wanted_def basis_of_def by (metis sum.case(1))+
  show "copies_ok V fl" unfolding copies_ok_def using * by (metis sum.distinct(1))
qed

section \<open>Deletions are over when the transfer starts\<close>

text \<open>Nothing on the data path calls \<open>deleteFiles\<close>.\<close>

definition unmoved :: "(recvr, 'a) io \<Rightarrow> bool" where
  "unmoved m \<longleftrightarrow> (\<forall>s. removed (snd (m s)) = removed s)"

lemma unmovedD: "unmoved m \<Longrightarrow> m s = (r, t) \<Longrightarrow> removed t = removed s"
  unfolding unmoved_def by (metis snd_conv)

lemma removed_advance [simp]: "removed (advance k s) = removed s"
  by (simp add: advance_def)

lemma unmoved_reads: "reads_only m \<Longrightarrow> unmoved m"
  unfolding unmoved_def by (metis removed_advance reads_onlyD prod.collapse)

lemma unmoved_recv_loop: "unmoved (recv_loop sh localFile h)"
proof -
  have "recv_loop sh localFile h s = (r, t) \<Longrightarrow> removed t = removed s" for s r t
  proof (induction "length (rx s)" arbitrary: h s rule: less_induct)
    case less
    obtain x s1 where x: "recvToken s = (x, s1)" by (cases "recvToken s")
    have s1: "removed s1 = removed s" by (rule unmovedD [OF unmoved_reads [OF reads_only_recvToken] x])
    have lt: "length (rx s1) < length (rx s)" if "x = Inr td" for td
      using recvToken_consumes x that by blast
    have again: "removed t = removed s"
      if "recv_loop sh localFile h' (s1\<lparr>piped := p\<rparr>) = (r, t)" "x = Inr td" for h' p td
      using less.hyps [OF _ that(1)] lt [OF that(2)] s1 by simp
    show ?case
      using less.prems x s1 again
      by (subst (asm) recv_loop.simps)
        (auto simp: ebind_def pipe_Write_def Let_def split: sum.splits if_splits option.splits)
  qed
  then show ?thesis unfolding unmoved_def by (metis prod.collapse)
qed

lemma unmoved_recvFile1: "unmoved (recvFile1 E f)"
proof -
  have put: "removed (put_done E f b s) = removed s" for b s by (simp add: put_done_def)
  note d = unmovedD [where m = ReadFrom, OF unmoved_reads [OF reads_only_ReadFrom]]
    unmovedD [where m = "ReadFull _", OF unmoved_reads [OF reads_only_ReadFull]]
    unmovedD [where m = "recv_loop _ _ _", OF unmoved_recv_loop]
  have "receiveData E f l s = (r, t) \<Longrightarrow> removed t = removed s" for l s r t
    unfolding receiveData_def ebind_def Let_def
    by (auto split: prod.splits sum.splits if_splits dest!: d simp: put)
  then have "unmoved (receiveData E f l)" for l unfolding unmoved_def by (metis prod.collapse)
  then show ?thesis unfolding recvFile1_def by (simp add: unmoved_def)
qed

lemma unmoved_RecvFiles: "unmoved (RecvFiles E fileList phase)"
proof -
  have "RecvFiles E fileList phase s = (r, t) \<Longrightarrow> removed t = removed s" for s r t
  proof (induction "length (rx s)" arbitrary: phase s rule: less_induct)
    case less
    obtain x s1 where x: "ReadInt32 s = (x, s1)" by (cases "ReadInt32 s")
    have s1: "removed s1 = removed s" by (rule unmovedD [OF unmoved_reads [OF reads_only_ReadInt32] x])
    have lt: "length (rx s1) < length (rx s)" if "x = Inr i" for i
      using ReadInt32_consumes x that by blast
    have again: "removed t = removed s2"
      if "RecvFiles E fileList phase' s2 = (r, t)" "x = Inr i" "length (rx s2) \<le> length (rx s1)" for phase' s2 i
      using less.hyps [OF _ that(1)] lt [OF that(2)] that(3) by simp
    have one: "removed s2 = removed s1 \<and> length (rx s2) \<le> length (rx s1)" if "recvFile1 E f s1 = (y, s2)" for f y s2
      using unmovedD [OF unmoved_recvFile1 that] shrinksD [where m = "recvFile1 _ _", OF shrinks_recvFile1 that] by simp
    show ?case
      using less.prems x s1 again one
      by (subst (asm) RecvFiles.simps)
        (auto simp: ebind_def fileList_at_def split: sum.splits if_splits prod.splits)
  qed
  then show ?thesis unfolding unmoved_def by (metis prod.collapse)
qed

section \<open>A session\<close>

text \<open>The receiver's half, from the list to the phase marks.\<close>

lemma receiver_Do_stores:
  assumes md4: "\<forall>x. length (r_md4 V x) = 16" and dry: "\<not> DryRun (r_opts V)" and cp: "copies_ok V fileList"
    and ans: "list_all2 (\<lambda>r out. answered (r_md4 V) (r_seed V) (fst r) (snd r) (cont (fst r)) out) (requests V fileList) outs"
    and rep: "\<forall>r \<in> set (requests V fileList). reply_ok V fileList cont r"
    and v: "room v = None" "rx v = concat outs @ le_enc 4 (-1 :: i32) @ le_enc 4 (-1 :: i32) @ q"
  shows "\<exists>d. both gen_first (GenerateFiles V fileList) (RecvFiles V fileList 0) v = (Inr (), d) \<and>
    talked v (concat (map (enc_req (r_md4 V) (r_seed V)) (requests V fileList)) @
      le_enc 4 (-1 :: i32) @ le_enc 4 (-1 :: i32)) q d \<and>
    stored d = stored v @ map (\<lambda>x. (fileList ! nat (sint (fst x)), cont (fst x), True)) (requests V fileList) \<and>
    removed d = removed v"
proof -
  let ?m = "le_enc 4 (-1 :: i32)" and ?rq = "requests V fileList"
  obtain v2 where v2: "GenerateFiles V fileList v = (Inr (), v2)"
    "wrote v (concat (map (enc_req (r_md4 V) (r_seed V)) ?rq) @ ?m @ ?m) v2"
    using GenerateFiles_requests [OF dry v(1) cp] by blast
  have frame: "stored v2 = stored v" "removed v2 = removed v"
    using only_writes_read_side [OF only_writes_GenerateFiles, of v V fileList] v2(1)
    by (metis mix_fields(3) snd_conv, metis mix_fields(4) snd_conv)
  have "rx v2 = concat outs @ ?m @ ?m @ q" using v2(2) v(2) by (simp add: wrote_def)
  from RecvFiles_answers [OF md4 dry ans rep this] obtain d where
    d: "RecvFiles V fileList 0 v2 = (Inr (), d)" "rx d = q" "tx d = tx v2" "room d = room v2"
      "stored d = stored v2 @ map (\<lambda>r. (fileList ! nat (sint (fst r)), cont (fst r), True)) ?rq" by blast
  have "both gen_first (GenerateFiles V fileList) (RecvFiles V fileList 0) v = (Inr (), d)"
    using v2(1) d(1) by (simp add: both_def)
  moreover have "removed d = removed v2" by (rule unmovedD [OF unmoved_RecvFiles d(1)])
  ultimately show ?thesis using v2(2) d(2-5) frame by (intro exI [of _ d]) (simp add: talked_def wrote_def sent_def)
qed

context byte_reader
begin

text \<open>The sender's half: list, answers, phase marks, statistics.\<close>

lemma sender_Do_answers:
  assumes md4: "\<forall>x. length (e_md4 S x) = 16" and srt: "slice_sort (e_sort S) tag" and dry: "\<not> e_dry S"
    and l: "listable L opt excl paths" and a: "opts_agree opt t"
    and ok: "\<forall>r \<in> set reqs. request_ok S (srt_s (map sender_entry (entries_of L excl paths))) cont fuel r"
    and rounds: "length reqs + 2 \<le> rounds" and c: "room c = None"
    and rx: "rx c = concat (map (enc_req (e_md4 S) (e_seed S)) reqs) @
      le_enc 4 (-1 :: i32) @ le_enc 4 (-1 :: i32) @ le_enc 4 (-1 :: i32) @ q"
  shows "\<exists>outs x y st d. sender_Do S L opt srt_s fuel rounds cwr paths excl c = Some (Inr st, d) \<and>
    talked c (list_message L opt (entries_of L excl paths) @ concat outs @ le_enc 4 (-1 :: i32) @ le_enc 4 (-1 :: i32) @
      enc64 x @ enc64 y @ enc64 (st_Size st)) q d \<and>
    st_Size st = sum_list (map entry_size (entries_of L excl paths)) \<and>
    list_all2 (\<lambda>r out. answered (e_md4 S) (e_seed S) (fst r) (snd r) (cont (fst r)) out) reqs outs"
proof -
  let ?m = "le_enc 4 (-1 :: i32)" and ?K = "entries_of L excl paths"
  let ?sz = "sum_list (map entry_size ?K)" and ?c = "emit (list_message L opt ?K) c"
  note s1 = SendFileList_ok [OF l a c]
  have "room ?c = None" "rx ?c = concat (map (enc_req (e_md4 S) (e_seed S)) reqs) @ ?m @ ?m @ ?m @ q"
    using c rx by simp_all
  from SendFiles_answers [OF md4 srt dry ok this rounds] obtain outs d where
    d: "SendFiles S fuel rounds (srt_s (map sender_entry ?K)) ?c = Some (Inr (), d)"
      "talked ?c (concat outs @ ?m @ ?m) (?m @ q) d"
      "list_all2 (\<lambda>r out. answered (e_md4 S) (e_seed S) (fst r) (snd r) (cont (fst r)) out) reqs outs" by blast
  have rd: "room d = None" "rx d = ?m @ q" using d(2) by (simp_all add: talked_def)
  from sender_end [OF rd, of cwr ?sz] obtain x y t st where
    t: "send_stats cwr ?sz d = Some (Inr st, t)" "talked d (enc64 x @ enc64 y @ enc64 ?sz) q t" "st_Size st = ?sz"
    by blast
  have "sender_Do S L opt srt_s fuel rounds cwr paths excl c = Some (Inr st, t)"
    using s1 d(1) t(1) by (simp add: sender_Do_def rbind_Some)
  moreover have "talked c (list_message L opt ?K @ concat outs @ ?m @ ?m @ enc64 x @ enc64 y @ enc64 (st_Size st)) q t"
    using t(2,3) d(2) c by (simp add: talked_def)
  ultimately show ?thesis using t(3) d(3) by blast
qed

text \<open>
  \<open>K\<close> are the entries the sender lists, \<open>cont\<close> the contents by index, as in \<open>agree\<close>.
\<close>

lemma session_delivers:
  fixes s0 :: transfer and v0 :: recvr and L excl paths opt srt_s srt_r
  defines "K \<equiv> entries_of L excl paths"
  defines "files \<equiv> srt_s (map sender_entry K)"
  defines "fileList \<equiv> SortFileList srt_r (map (received L opt) K)"
  assumes md4: "\<forall>x. length (r_md4 V x) = 16" and srt: "slice_sort (e_sort S) tag"
    and l: "listable L opt excl paths" and a: "opts_agree opt (r_opts V)"
    and agree: "agree S V files fileList cont fuel" and nodel: "\<not> DeleteMode (r_opts V)"
    and rounds: "length (requests V fileList) + 2 \<le> rounds"
    and s0: "room s0 = None" "sent s0 = []" and v0: "room v0 = None" "sent v0 = []"
  shows "\<exists>up down st st' s v.
    sender_Do S L opt srt_s fuel rounds cwr paths excl (s0\<lparr>rx := up\<rparr>) = Some (Inr st, s) \<and>
    sent s = down \<and> rx s = [] \<and>
    ebind (ReceiveFileList srt_r (r_opts V)) (\<lambda>fl. receiver_Do gen_first V fl False) (v0\<lparr>rx := down\<rparr>) =
      (Inr (Some st'), v) \<and>
    sent v = up \<and> rx v = [] \<and> st_Size st = st_Size st' \<and>
    stored v = stored v0 @ map (\<lambda>x. (fileList ! nat (sint (fst x)), cont (fst x), True)) (requests V fileList)"
proof -
  let ?m = "le_enc 4 (-1 :: i32)" and ?rq = "requests V fileList" and ?lm = "list_message L opt K"
  define up where "up = concat (map (enc_req (r_md4 V) (r_seed V)) ?rq) @ ?m @ ?m @ ?m"
  have eq: "e_md4 S = r_md4 V" "e_seed S = r_seed V" "\<not> e_dry S" "\<not> DryRun (r_opts V)" "copies_ok V fileList"
    using agree by (auto simp: agree_def)
  have md4': "\<forall>x. length (e_md4 S x) = 16" using md4 eq(1) by simp
  have ok: "\<forall>r \<in> set ?rq. request_ok S (srt_s (map sender_entry (entries_of L excl paths))) cont fuel r"
    and rep: "\<forall>r \<in> set ?rq. reply_ok V fileList cont r"
    using agree_request [OF agree] unfolding files_def K_def by blast+
  have "room (s0\<lparr>rx := up\<rparr>) = None" "rx (s0\<lparr>rx := up\<rparr>) =
      concat (map (enc_req (e_md4 S) (e_seed S)) ?rq) @ ?m @ ?m @ ?m @ []"
    using s0(1) by (simp_all add: up_def eq(1,2))
  from sender_Do_answers [where cwr = cwr and srt_s = srt_s and cont = cont and fuel = fuel and q = "[]",
      OF md4' srt eq(3) l a ok rounds this] obtain outs x y st t where
    t: "sender_Do S L opt srt_s fuel rounds cwr paths excl (s0\<lparr>rx := up\<rparr>) = Some (Inr st, t)"
      "talked (s0\<lparr>rx := up\<rparr>) (?lm @ concat outs @ ?m @ ?m @ enc64 x @ enc64 y @ enc64 (st_Size st)) [] t"
      "list_all2 (\<lambda>r out. answered (e_md4 S) (e_seed S) (fst r) (snd r) (cont (fst r)) out) ?rq outs"
    unfolding K_def by blast
  define down where "down = ?lm @ concat outs @ ?m @ ?m @ enc64 x @ enc64 y @ enc64 (st_Size st)"
  have "sent t = down" "rx t = []" using t(2) s0(2) by (simp_all add: talked_def down_def sent_def)
  note sender = t(1) this
  let ?v = "v0\<lparr>rx := down\<rparr>" and ?v1 = "advance (length ?lm) (v0\<lparr>rx := down\<rparr>)\<lparr>IOErrors := 0\<rparr>"
  let ?stats = "enc64 x @ enc64 y @ enc64 (st_Size st)"
  have eok: "\<forall>i \<in> set K. entry_ok L opt i" using l by (simp add: listable_def K_def)
  have rv: "rx ?v = ?lm @ concat outs @ ?m @ ?m @ ?stats" by (simp add: down_def)
  have v1: "ReceiveFileList srt_r (r_opts V) ?v = (Inr fileList, ?v1)"
    using ReceiveFileList_ok [OF eok a rv] by (simp add: fileList_def)
  have rv1: "room ?v1 = None" "rx ?v1 = concat outs @ ?m @ ?m @ ?stats" "sent ?v1 = []" "stored ?v1 = stored v0"
    using rv v0 by (simp_all add: advance_def sent_def)
  from receiver_Do_stores [OF md4 eq(4,5) t(3) [unfolded eq(1,2)] rep rv1(1,2), of gen_first] obtain v3 where
    v3: "both gen_first (GenerateFiles V fileList) (RecvFiles V fileList 0) ?v1 = (Inr (), v3)"
      "talked ?v1 (concat (map (enc_req (r_md4 V) (r_seed V)) ?rq) @ ?m @ ?m) ?stats v3"
      "stored v3 = stored ?v1 @ map (\<lambda>x. (fileList ! nat (sint (fst x)), cont (fst x), True)) ?rq" by blast
  let ?st = "\<lparr>st_Read = x, st_Written = y, st_Size = st_Size st\<rparr>" and ?v4 = "advance (length ?stats) v3"
  have rx3: "rx v3 = ?stats @ []" using v3(2) by (simp add: talked_def)
  have v4: "report v3 = (Inr ?st, ?v4)" by (rule readsD [OF reads_report rx3])
  have room4: "room ?v4 = None" using v3(2) by (simp add: talked_def)
  have "ebind (ReceiveFileList srt_r (r_opts V)) (\<lambda>fl. receiver_Do gen_first V fl False) ?v =
      (Inr (Some ?st), emit ?m ?v4)"
    using v1 v3(1) v4 nodel WriteInt32_ok [OF room4] by (simp add: ebind_def receiver_Do_def)
  moreover have "sent (emit ?m ?v4) = up" using v3(2) rv1(3) by (simp add: talked_def up_def)
  moreover have "rx (emit ?m ?v4) = []" using rx3 by simp
  moreover have "stored (emit ?m ?v4) = stored v0 @ map (\<lambda>x. (fileList ! nat (sint (fst x)), cont (fst x), True)) ?rq"
    using v3(3) rv1(4) by (simp add: emit_def advance_def)
  ultimately show ?thesis
    using sender by (intro exI [of _ up] exI [of _ down]) auto
qed

end

section \<open>Into an empty destination\<close>

context byte_reader
begin

text \<open>The sender can open every regular file it lists, and reads \<open>C\<close> of its name from it.\<close>

definition readable :: "'r send_env \<Rightarrow> FileInfo list \<Rightarrow> (bytes \<Rightarrow> bytes) \<Rightarrow> nat \<Rightarrow> bool" where
  "readable S K C fuel \<longleftrightarrow> e_rd S = rd \<and>
     (\<forall>i \<in> set K. IsRegular (fiMode i) \<longrightarrow> length (C (entry_key i)) < 2 ^ 52 \<and> length (C (entry_key i)) < fuel \<and>
        (\<exists>fi r. e_read S (sender_entry i) = Inr (fi, r) \<and> fiSize fi = int (length (C (entry_key i))) \<and>
           wf r \<and> pending r = C (entry_key i)))"

lemma fresh_agree:
  assumes e: "empty_dest V" and md4: "e_md4 S = r_md4 V" "e_seed S = r_seed V" and dry: "\<not> e_dry S" "\<not> DryRun (r_opts V)"
    and r: "readable S K C fuel" and m: "\<forall>i \<in> set K. mode_ok (fiMode i)" and len: "length K \<le> 2 ^ 31"
  shows "agree S V (map sender_entry K) (map (received L opt) K) (\<lambda>x. C (entry_key (K ! nat (sint x)))) fuel"
proof -
  let ?fl = "map (received L opt) K"
  have len': "length ?fl \<le> 2 ^ 31" using len by simp
  have "servable S (map sender_entry K ! nat (sint i)) (C (entry_key (K ! nat (sint i)))) (req_head (r_md4 V) (r_seed V) basis) \<and>
      length (C (entry_key (K ! nat (sint i)))) < fuel \<and> r_limit V (?fl ! nat (sint i)) = None \<and> basis = None"
    if "(i, basis) \<in> set (requests V ?fl)" for i basis
  proof -
    note q = requests_sound [OF that len']
    let ?i = "K ! nat (sint i)"
    have j: "nat (sint i) < length K" using q(1,2) by simp
    have b: "basis = None" using q(4) empty_dest_wanted(2) [OF e] by simp
    have "IsRegular (FileMode (received L opt ?i))" using q(3) empty_dest_wanted(1) [OF e] j by simp
    then have "IsRegular (fiMode ?i)" using regular_received m j by simp
    with r j have c: "length (C (entry_key ?i)) < 2 ^ 52" "length (C (entry_key ?i)) < fuel" "e_rd S = rd"
      "\<exists>fi r. e_read S (sender_entry ?i) = Inr (fi, r) \<and> fiSize fi = int (length (C (entry_key ?i))) \<and>
           wf r \<and> pending r = C (entry_key ?i)" by (auto simp: readable_def)
    have "Sums (req_head (r_md4 V) (r_seed V) basis) = []" using b by (simp add: zero_SumHead_def)
    with b c j e show ?thesis by (simp add: servable_def empty_dest_def)
  qed
  then show ?thesis
    using md4 dry len empty_dest_wanted(3) [OF e] unfolding agree_def by fastforce
qed

lemma fresh_sync:
  fixes s0 :: transfer and v0 :: recvr and L excl paths
  defines "K \<equiv> entries_of L excl paths"
  assumes md4: "\<forall>x. length (r_md4 V x) = 16" and same: "e_md4 S = r_md4 V" "e_seed S = r_seed V"
    and srt: "slice_sort (e_sort S) tag" "slice_sort srt_s WPath" "slice_sort srt_r Name"
    and l: "listable L opt excl paths" and a: "opts_agree opt (r_opts V)"
    and dry: "\<not> e_dry S" "\<not> DryRun (r_opts V)" and nodel: "\<not> DeleteMode (r_opts V)"
    and clean: "\<forall>i \<in> set K. Clean (entry_key i) = entry_key i" and dist: "distinct (map entry_key K)"
    and e: "empty_dest V" and r: "readable S K C fuel" and len: "length K \<le> 2 ^ 31"
    and rounds: "length K + 2 \<le> rounds"
    and s0: "room s0 = None" "sent s0 = []" and v0: "room v0 = None" "sent v0 = []"
  shows "\<exists>up down st st' s v.
    sender_Do S L opt srt_s fuel rounds cwr paths excl (s0\<lparr>rx := up\<rparr>) = Some (Inr st, s) \<and>
    sent s = down \<and> rx s = [] \<and>
    ebind (ReceiveFileList srt_r (r_opts V)) (\<lambda>fl. receiver_Do gen_first V fl False) (v0\<lparr>rx := down\<rparr>) =
      (Inr (Some st'), v) \<and>
    sent v = up \<and> rx v = [] \<and> st_Size st = st_Size st' \<and>
    stored v = stored v0 @ map (\<lambda>i. (received L opt i, C (entry_key i), True))
      (filter (\<lambda>i. IsRegular (fiMode i)) (sort_key entry_key K))"
proof -
  let ?K = "sort_key entry_key K" and ?c = "\<lambda>x :: i32. C (entry_key (sort_key entry_key K ! nat (sint x)))"
  note ord = same_order [OF srt(2,3) clean dist]
  let ?fl = "map (received L opt) ?K"
  have m: "\<forall>i \<in> set ?K. mode_ok (fiMode i)" using l by (simp add: listable_def entry_ok_def K_def)
  have r': "readable S ?K C fuel" using r by (simp add: readable_def)
  have len': "length ?K \<le> 2 ^ 31" "length ?fl \<le> 2 ^ 31" using len by simp_all
  have ag: "agree S V (map sender_entry ?K) ?fl ?c fuel"
    by (rule fresh_agree [OF e same dry r' m len'(1)])
  have w: "wanted V (received L opt i) \<longleftrightarrow> IsRegular (fiMode i)" if "i \<in> set ?K" for i
    using empty_dest_wanted(1) [OF e] regular_received m that by simp
  have "length (requests_from V k fs) \<le> length fs" for k fs
    by (induction fs arbitrary: k) (auto intro: le_SucI)
  from this [of 0 ?fl] rounds have rounds': "length (requests V ?fl) + 2 \<le> rounds" by (simp add: requests_def)
  have cont: "?c (word_of_nat j) = C (Name (?fl ! j))" if "j < length ?fl" for j
  proof -
    have "sint (word_of_nat j :: i32) = int j" using that len'(2) by (intro sint_word_of_nat32) simp
    moreover have "Name (?fl ! j) = entry_key (?K ! j)"
      using clean that nth_mem [of j ?K] by (simp add: received_def entry_key_def)
    ultimately show ?thesis by simp
  qed
  have "map (\<lambda>x. (?fl ! nat (sint (fst x)), ?c (fst x), True)) (requests V ?fl) =
      map (\<lambda>f. (f, C (Name f), True)) (filter (wanted V) ?fl)"
    by (rule requests_files [OF len'(2)]) (rule cont)
  also have "\<dots> = map (\<lambda>i. (received L opt i, C (entry_key i), True)) (filter (\<lambda>i. IsRegular (fiMode i)) ?K)"
  proof -
    have "filter (wanted V) ?fl = map (received L opt) (filter (\<lambda>i. IsRegular (fiMode i)) ?K)"
      unfolding filter_map o_def using w by (metis (no_types, lifting) filter_cong)
    moreover have "Name (received L opt i) = entry_key i" if "i \<in> set ?K" for i
      using clean that by (simp add: received_def entry_key_def)
    ultimately show ?thesis by simp
  qed
  finally have st: "map (\<lambda>x. (?fl ! nat (sint (fst x)), ?c (fst x), True)) (requests V ?fl) =
    map (\<lambda>i. (received L opt i, C (entry_key i), True)) (filter (\<lambda>i. IsRegular (fiMode i)) ?K)" .
  show ?thesis
    using session_delivers [of V S L opt excl paths srt_s srt_r ?c fuel rounds s0 v0 cwr gen_first,
        folded K_def, unfolded ord, OF md4 srt(1) l a ag nodel rounds' s0 v0]
    unfolding st .
qed

end

end
