(* ===== verification/ClientRunSpec.thy ===== *)
theory ClientRunSpec
  imports ClientSpec
begin

text \<open>
  The entry points: what a \<open>ClientRun\<close> puts on the wire (plain handshake, then one frame per write,
  then perhaps an error message), and complete sessions against a peer that follows the protocol.
\<close>

section \<open>From the log of writes to the wire\<close>

lemma fresh_cwr_wire: "wire (W (fresh_cwr log)) = concat log" "space (W (fresh_cwr log)) = None"
  using cw.write_all_healthy [of "\<lparr>W = \<lparr>wire = [], space = None\<rparr>, BytesWritten = 0\<rparr>" log]
  by (auto simp: fresh_cwr_def CounterPair_def)

lemma below_wire:
  assumes "space (W w) = None"
  shows "wire (W (below w log)) = wire (W w) @ concat (map (frame MsgData) log)" "space (W (below w log)) = None"
  using mpx.write_all_healthy [OF assms, of log] by (auto simp: below_def mplex_Write_def)

definition error_frame :: "(err \<Rightarrow> bytes) \<Rightarrow> err \<Rightarrow> bytes" where
  "error_frame errmsg e = (case e of Panic _ \<Rightarrow> [] | _ \<Rightarrow> frame MsgError (errmsg e))"

lemma last_words_wire:
  assumes "space (W w) = None"
  shows "wire (W (last_words errmsg e w)) = wire (W w) @ error_frame errmsg e"
proof -
  let ?wr = "CountingWriter_Write net_Write" and ?h = "le_enc 4 (mplex_header MsgError (errmsg e))"
  obtain w1 where w1: "?wr w ?h = ((length ?h, None), w1)" "space (W w1) = None" "wire (W w1) = wire (W w) @ ?h"
    using cw.write_healthy [OF assms, of ?h] by blast
  obtain w2 where "?wr w1 (errmsg e) = ((length (errmsg e), None), w2)" "wire (W w2) = wire (W w1) @ errmsg e"
    using cw.write_healthy [OF w1(2), of "errmsg e"] by blast
  with w1 show ?thesis
    by (cases e) (simp_all add: last_words_def error_frame_def MultiplexWriter_WriteMsg_def frame_def)
qed

section \<open>The handshake\<close>

definition hello :: "bool \<Rightarrow> bytes" where
  "hello negotiate = (if negotiate then le_enc 4 (27 :: i32) else []) @ le_enc 4 (666 :: i32)"

lemma handshake_ok:
  assumes "room c = None" and "negotiate \<longrightarrow> 4 \<le> length (rx c)"
  shows "\<exists>d. handshake negotiate c = (Inr (), d) \<and> talked c (hello negotiate) (if negotiate then drop 4 (rx c) else rx c) d"
proof -
  have "rx c = le_enc 4 (le_dec (take 4 (rx c)) :: i32) @ drop 4 (rx c)" if "4 \<le> length (rx c)"
    using le_enc_dec [of "take 4 (rx c)", where 'a = 32] that by simp
  then have "\<exists>v. ReadInt32 c = (Inr v, advance 4 c)" if negotiate
    using ReadInt32_enc assms(2) that by blast
  then show ?thesis
    using assms(1) by (cases negotiate)
      (auto simp: handshake_def ebind_def WriteInt32_ok talked_def hello_def ProtocolVersion_def sessionChecksumSeed_def)
qed

text \<open>The same, with the log of the handshake taken over by the counting writer.\<close>

lemma handshake_cwr:
  assumes "room c = None" and "tx c = []" and "negotiate \<longrightarrow> 4 \<le> length (rx c)"
  shows "\<exists>d. handshake negotiate c = (Inr (), d) \<and> wire (W (fresh_cwr (tx d))) = hello negotiate \<and> room d = None \<and>
    rx d = (if negotiate then drop 4 (rx c) else rx c)"
  using handshake_ok [OF assms(1,3)] assms(2) by (auto simp: talked_def sent_def fresh_cwr_wire)

section \<open>What a run sends\<close>

lemma sender_ClientRun_wire:
  assumes run: "sender_ClientRun errmsg E L srt fuel rounds opt paths negotiate inp = Some (r, out)"
    and long: "negotiate \<longrightarrow> 4 \<le> length inp"
  shows "\<exists>log. out = hello negotiate @ concat (map (frame MsgData) log) @
    (case r of Inl e \<Rightarrow> error_frame errmsg e | Inr _ \<Rightarrow> [])"
proof -
  let ?c = "\<lparr>rx = inp, nread = 0, tx = [], room = None, lastMatch = 0\<rparr> :: transfer"
  obtain d where d: "handshake negotiate ?c = (Inr (), d)" "wire (W (fresh_cwr (tx d))) = hello negotiate"
    using handshake_cwr [of ?c negotiate] long by auto
  note bw = below_wire [OF fresh_cwr_wire(2)]
  show ?thesis
    using run d(2)
    by (auto simp: sender_ClientRun_def d(1) Let_def bw last_words_wire split: option.splits sum.splits prod.splits)
qed

section \<open>Complete sessions\<close>

context byte_reader
begin

text \<open>The sender against a client that negotiates, sends its rules and its requests, and says goodbye.\<close>

lemma sender_ClientRun_serves:
  fixes opt :: Options and E :: "'r send_env"
  defines "E' \<equiv> E\<lparr>e_seed := sessionChecksumSeed, e_dry := False\<rparr>"
  assumes md4: "\<forall>x. length (e_md4 E x) = 16" and srt: "slice_sort (e_sort E) tag" and dry: "\<not> o_DryRun opt"
    and lines: "\<forall>line \<in> set lines. line \<noteq> [] \<and> length line < 2 ^ 31"
    and l: "listable L opt (map rule_of lines) paths" and a: "opts_agree opt t"
    and ok: "\<forall>r \<in> set reqs. request_ok E' (srt_s (map sender_entry (entries_of L (map rule_of lines) paths))) cont fuel r"
    and rounds: "length reqs + 2 \<le> rounds"
    and inp: "inp = (if negotiate then le_enc 4 (version :: i32) else []) @
      concat (map enc_line lines) @ le_enc 4 (0 :: i32) @
      concat (map (enc_req (e_md4 E) sessionChecksumSeed) reqs) @
      le_enc 4 (-1 :: i32) @ le_enc 4 (-1 :: i32) @ le_enc 4 (-1 :: i32)"
  shows "\<exists>st log outs x y. sender_ClientRun errmsg E L srt_s fuel rounds opt paths negotiate inp =
      Some (Inr st, hello negotiate @ concat (map (frame MsgData) log)) \<and>
    concat log = list_message L opt (entries_of L (map rule_of lines) paths) @ concat outs @
      le_enc 4 (-1 :: i32) @ le_enc 4 (-1 :: i32) @ enc64 x @ enc64 y @ enc64 (st_Size st) \<and>
    list_all2 (\<lambda>r out. answered (e_md4 E) sessionChecksumSeed (fst r) (snd r) (cont (fst r)) out) reqs outs"
proof -
  let ?m = "le_enc 4 (-1 :: i32)" and ?c = "\<lparr>rx = inp, nread = 0, tx = [], room = None, lastMatch = 0\<rparr> :: transfer"
  let ?rest = "concat (map (enc_req (e_md4 E) sessionChecksumSeed) reqs) @ ?m @ ?m @ ?m"
  have E': "E' = E\<lparr>e_seed := sessionChecksumSeed, e_dry := o_DryRun opt\<rparr>" using dry by (simp add: E'_def)
  have e: "e_md4 E' = e_md4 E" "e_seed E' = sessionChecksumSeed" "\<not> e_dry E'" "e_sort E' = e_sort E"
    by (simp_all add: E'_def)
  have "negotiate \<longrightarrow> 4 \<le> length inp" by (simp add: inp)
  then obtain d where d: "handshake negotiate ?c = (Inr (), d)" "wire (W (fresh_cwr (tx d))) = hello negotiate"
    "room d = None" "rx d = concat (map enc_line lines) @ le_enc 4 (0 :: i32) @ ?rest"
    using handshake_cwr [of ?c negotiate] by (auto simp: inp)
  let ?d = "d\<lparr>tx := []\<rparr>"
  have "rx ?d = concat (map enc_line lines) @ le_enc 4 (0 :: i32) @ ?rest" using d(4) by simp
  from RecvFilterList_lines [OF lines this, of "[]"] obtain k where
    k: "RecvFilterList [] ?d = (Inr (map rule_of lines), advance k ?d)" "drop k (rx ?d) = ?rest" by auto
  have rk: "room (advance k ?d) = None" "rx (advance k ?d) =
      concat (map (enc_req (e_md4 E') (e_seed E')) reqs) @ ?m @ ?m @ ?m @ []"
    using d(3) k(2) by (simp_all add: e)
  have md4': "\<forall>x. length (e_md4 E' x) = 16" "slice_sort (e_sort E') tag" using md4 srt by (simp_all add: e)
  let ?cwr = "fresh_cwr (tx d)"
  from sender_Do_answers [where cwr = ?cwr and srt_s = srt_s and cont = cont and fuel = fuel and q = "[]",
      OF md4' e(3) l a ok rounds rk] obtain outs x y st u where
    u: "sender_Do E' L opt srt_s fuel rounds ?cwr paths (map rule_of lines) (advance k ?d) = Some (Inr st, u)"
      "talked (advance k ?d) (list_message L opt (entries_of L (map rule_of lines) paths) @ concat outs @ ?m @ ?m @
         enc64 x @ enc64 y @ enc64 (st_Size st)) [] u"
      "list_all2 (\<lambda>r out. answered (e_md4 E') (e_seed E') (fst r) (snd r) (cont (fst r)) out) reqs outs" by blast
  have "concat (tx u) = list_message L opt (entries_of L (map rule_of lines) paths) @ concat outs @ ?m @ ?m @
         enc64 x @ enc64 y @ enc64 (st_Size st)"
    using u(2) by (simp add: talked_def sent_def)
  moreover have "sender_ClientRun errmsg E L srt_s fuel rounds opt paths negotiate inp =
      Some (Inr st, hello negotiate @ concat (map (frame MsgData) (tx u)))"
    using d(1,2) k(1) u(1) by (simp add: sender_ClientRun_def Let_def E' [symmetric] below_wire fresh_cwr_wire)
  ultimately show ?thesis using u(3) unfolding e by blast
qed

end

text \<open>The receiver against a sender that sends its list and answers the requests.\<close>

definition run_env :: "recv_env \<Rightarrow> Options \<Rightarrow> recv_env" where
  "run_env V opt = V\<lparr>r_seed := sessionChecksumSeed, r_opts := opts_of opt, r_dest := [slash]\<rparr>"

lemma receiver_ClientRun_stores:
  fixes opt :: Options and V :: recv_env and srt :: "ReceiverFile list \<Rightarrow> ReceiverFile list"
  defines "V' \<equiv> run_env V opt"
  assumes md4: "\<forall>x. length (r_md4 V x) = 16" and dry: "\<not> o_DryRun opt"
    and lines: "\<forall>line \<in> set lines. line \<noteq> [] \<and> length line < 2 ^ 31"
    and eok: "\<forall>i \<in> set K. entry_ok L opt i" and a: "opts_agree opt (opts_of opt)"
    and fl: "fileList = SortFileList srt (map (received L opt) K)" and cp: "copies_ok V' fileList"
    and rem: "o_DeleteMode opt \<longrightarrow> r_remove V fileList = None"
    and ans: "list_all2 (\<lambda>r out. answered (r_md4 V) sessionChecksumSeed (fst r) (snd r) (cont (fst r)) out) (requests V' fileList) outs"
    and rep: "\<forall>r \<in> set (requests V' fileList). reply_ok V' fileList cont r"
    and inp: "inp = (if negotiate then le_enc 4 (version :: i32) else []) @
      (if o_DeleteMode opt then concat (map enc_line lines) @ le_enc 4 (0 :: i32) else []) @
      list_message L opt K @ concat outs @ le_enc 4 (-1 :: i32) @ le_enc 4 (-1 :: i32)"
  shows "\<exists>log u. receiver_ClientRun errmsg gen_first V srt opt negotiate inp =
      (Inr (), hello negotiate @ concat (map (frame MsgData) log), u) \<and>
    concat log = concat (map (enc_req (r_md4 V) sessionChecksumSeed) (requests V' fileList)) @
      le_enc 4 (-1 :: i32) @ le_enc 4 (-1 :: i32) @ le_enc 4 (-1 :: i32) \<and> rx u = [] \<and>
    stored u = map (\<lambda>x. (fileList ! nat (sint (fst x)), cont (fst x), True)) (requests V' fileList) \<and>
    removed u = (if o_DeleteMode opt then [fileList] else [])"
proof -
  let ?m = "le_enc 4 (-1 :: i32)"
  let ?c = "\<lparr>rx = inp, nread = 0, tx = [], room = None, piped = [], stored = [], IOErrors = 0, removed = []\<rparr> :: recvr"
  let ?lm = "list_message L opt K" and ?rq = "requests V' fileList"
  have e: "r_md4 V' = r_md4 V" "r_seed V' = sessionChecksumSeed" "r_opts V' = opts_of opt" "r_remove V' = r_remove V"
    by (simp_all add: V'_def run_env_def)
  have o: "DryRun (opts_of opt) = o_DryRun opt" "DeleteMode (opts_of opt) = o_DeleteMode opt"
    by (simp_all add: opts_of_def)
  have "negotiate \<longrightarrow> 4 \<le> length inp" by (simp add: inp)
  then obtain d where d: "handshake negotiate ?c = (Inr (), d)" "wire (W (fresh_cwr (tx d))) = hello negotiate"
    "room d = None" "rx d = (if o_DeleteMode opt then concat (map enc_line lines) @ le_enc 4 (0 :: i32) else []) @
      ?lm @ concat outs @ ?m @ ?m"
    using handshake_cwr [of ?c negotiate] by (auto simp: inp)
  have st: "stored d = []" "removed d = []"
    using d(1) by (auto simp: handshake_def ebind_def WriteInt32_ok ReadInt32_def ReadFull_def advance_def emit_def
        split: if_splits prod.splits sum.splits)
  have "\<exists>k. (if o_DeleteMode opt then ebind (RecvFilterList []) (\<lambda>_. ret ()) else ret ()) (d\<lparr>tx := []\<rparr>) =
      (Inr (), advance k (d\<lparr>tx := []\<rparr>)) \<and> drop k (rx d) = ?lm @ concat outs @ ?m @ ?m"
  proof (cases "o_DeleteMode opt")
    case True
    then have "rx (d\<lparr>tx := []\<rparr>) = concat (map enc_line lines) @ le_enc 4 (0 :: i32) @ ?lm @ concat outs @ ?m @ ?m"
      using d(4) by simp
    from RecvFilterList_lines [OF lines this, of "[]"] True show ?thesis by (auto simp: ebind_def)
  next
    case False
    then show ?thesis using d(4) by (intro exI [of _ 0]) simp
  qed
  then obtain k where k: "(if o_DeleteMode opt then ebind (RecvFilterList []) (\<lambda>_. ret ()) else ret ()) (d\<lparr>tx := []\<rparr>) =
      (Inr (), advance k (d\<lparr>tx := []\<rparr>))" "drop k (rx d) = ?lm @ concat outs @ ?m @ ?m" by blast
  let ?v = "advance k (d\<lparr>tx := []\<rparr>)"
  let ?v1 = "advance (length ?lm) ?v\<lparr>IOErrors := 0\<rparr>"
  have rv: "rx ?v = ?lm @ concat outs @ ?m @ ?m" using k(2) by simp
  have v1: "ReceiveFileList srt (opts_of opt) ?v = (Inr fileList, ?v1)"
    using ReceiveFileList_ok [OF eok a rv] by (simp add: fl)
  define v2 where "v2 = (if o_DeleteMode opt then ?v1\<lparr>removed := [fileList]\<rparr> else ?v1)"
  have v2: "(if DeleteMode (r_opts V') then deleteFiles V' fileList else ret ()) ?v1 = (Inr (), v2)"
    using rem st(2) by (simp add: v2_def e o deleteFiles_def advance_def)
  have rv2: "room v2 = None" "rx v2 = concat outs @ ?m @ ?m @ []" "tx v2 = []" "stored v2 = []"
    "removed v2 = (if o_DeleteMode opt then [fileList] else [])"
    using rv d(3) st by (simp_all add: v2_def advance_def)
  have h: "\<forall>x. length (r_md4 V' x) = 16" "\<not> DryRun (r_opts V')" using md4 dry by (simp_all add: e o)
  have ans': "list_all2 (\<lambda>r out. answered (r_md4 V') (r_seed V') (fst r) (snd r) (cont (fst r)) out) ?rq outs"
    using ans by (simp add: e)
  from receiver_Do_stores [OF h cp ans' rep rv2(1,2), of gen_first] obtain v3 where
    v3: "both gen_first (GenerateFiles V' fileList) (RecvFiles V' fileList 0) v2 = (Inr (), v3)"
      "talked v2 (concat (map (enc_req (r_md4 V') (r_seed V')) ?rq) @ ?m @ ?m) [] v3"
      "stored v3 = stored v2 @ map (\<lambda>x. (fileList ! nat (sint (fst x)), cont (fst x), True)) ?rq" "removed v3 = removed v2" by blast
  let ?u = "emit ?m v3"
  have "receiver_Do gen_first V' fileList True ?v1 = (Inr None, ?u)"
    using v2 v3(1,2) by (simp add: receiver_Do_def ebind_def WriteInt32_ok talked_def)
  then have "receiver_ClientRun errmsg gen_first V srt opt negotiate inp =
      (Inr (), hello negotiate @ concat (map (frame MsgData) (tx ?u)), ?u)"
    using d(1,2) k(1) v1
    by (simp add: receiver_ClientRun_def Let_def run_env_def [symmetric] V'_def [symmetric] e ebind_def below_wire fresh_cwr_wire)
  moreover have "concat (tx ?u) = concat (map (enc_req (r_md4 V) sessionChecksumSeed) ?rq) @ ?m @ ?m @ ?m"
    using v3(2) rv2(3) by (simp add: talked_def sent_def e)
  moreover have "rx ?u = []" "stored ?u = map (\<lambda>x. (fileList ! nat (sint (fst x)), cont (fst x), True)) ?rq"
    "removed ?u = (if o_DeleteMode opt then [fileList] else [])"
    using v3(2-4) rv2(4,5) by (simp_all add: talked_def emit_def)
  ultimately show ?thesis by blast
qed

section \<open>What the sessions promise\<close>

text \<open>The sender can open every regular file it lists, here in segments, and reads \<open>C\<close> of its name from it.\<close>

definition net_readable :: "bytes list send_env \<Rightarrow> FileInfo list \<Rightarrow> (bytes \<Rightarrow> bytes) \<Rightarrow> nat \<Rightarrow> bool" where
  "net_readable S K C fuel \<longleftrightarrow> e_rd S = net_Read \<and>
     (\<forall>i \<in> set K. IsRegular (fiMode i) \<longrightarrow> length (C (entry_key i)) < 2 ^ 52 \<and> length (C (entry_key i)) < fuel \<and>
        (\<exists>fi ss. e_read S (sender_entry i) = Inr (fi, ss) \<and> fiSize fi = int (length (C (entry_key i))) \<and>
           [] \<notin> set ss \<and> concat ss = C (entry_key i)))"

lemma segs_readable: "segs.readable = net_readable"
  by (intro ext) (simp add: segs.readable_def net_readable_def)


lemma demo_empty: "empty_dest demo_recv"
  by (simp add: empty_dest_def demo_recv_def)

lemma demo_key: "entry_key demo_info = [97]" "Clean [97] = [97]"
  by (simp_all add: entry_key_def entry_name_def demo_info_def slash_def dot_def Clean_def clean_step_def)

lemma demo_readable: "net_readable demo_env [demo_info] (\<lambda>_. [9, 1, 2, 3]) 5"
  by (simp add: net_readable_def demo_env_def)



text \<open>A peer that stops after the handshake: the next read fails, on both sides.\<close>

lemma RecvFilterList_short:
  assumes "length (rx s) < 4"
  shows "RecvFilterList [] s = (Inl (if rx s = [] then EOF else ErrUnexpectedEOF), advance (length (rx s)) s)"
  using assms by (subst RecvFilterList.simps) (simp add: ebind_def ReadInt32_def ReadFull_def)

lemma sender_stops_short:
  assumes "length inp = 4"
  shows "sender_ClientRun errmsg E L srt fuel rounds opt paths True inp =
    Some (Inl EOF, hello True @ error_frame errmsg EOF)"
proof -
  obtain d where d: "handshake True \<lparr>rx = inp, nread = 0, tx = [], room = None, lastMatch = 0\<rparr> = (Inr (), d)"
    "wire (W (fresh_cwr (tx d))) = hello True" "rx d = []"
    using handshake_cwr [of "\<lparr>rx = inp, nread = 0, tx = [], room = None, lastMatch = 0\<rparr> :: transfer" True] assms by auto
  from d(3) have "RecvFilterList [] (d\<lparr>tx := []\<rparr>) = (Inl EOF, advance 0 (d\<lparr>tx := []\<rparr>))"
    using RecvFilterList_short [of "d\<lparr>tx := []\<rparr>"] by simp
  then show ?thesis
    using d(1,2) below_wire [OF fresh_cwr_wire(2), of "[]"]
    by (simp add: sender_ClientRun_def Let_def last_words_wire below_wire fresh_cwr_wire)
qed





lemma demo_run_requests:
  fixes opt defines "fl \<equiv> SortFileList (sort_key Name) (map (received demo_list demo_opts) [demo_info])"
  shows "fl = [received demo_list demo_opts demo_info]"
    and "requests (run_env demo_recv opt) fl = [(0, None)]"
    and "copies_ok (run_env demo_recv opt) fl"
proof -
  let ?f = "received demo_list demo_opts demo_info"
  show fl: "fl = [?f]" by (simp add: fl_def SortFileList_def)
  have e: "empty_dest (run_env demo_recv opt)" by (simp add: empty_dest_def run_env_def demo_recv_def)
  show "copies_ok (run_env demo_recv opt) fl" by (rule empty_dest_wanted(3) [OF e])
  have "IsRegular (FileMode ?f)"
    by (subst regular_received) (simp_all add: demo_info_def mode_ok_def IsRegular_def Mode_defs)
  then have "wanted (run_env demo_recv opt) ?f" using empty_dest_wanted(1) [OF e] by simp
  then show "requests (run_env demo_recv opt) fl = [(0, None)]"
    using empty_dest_wanted(2) [OF e] by (simp add: fl requests_def)
qed


end
