(* ===== verification/OptionsSpec.thy ===== *)
theory OptionsSpec
  imports Options
begin

text \<open>
  What the option parser promises: the tables are well typed, so parsing panics in daemon mode only;
  the defaults that depend on other options are settled at the end; and a few whole command lines.
\<close>

section \<open>Types of the tables\<close>

text \<open>The fields of the source's \<open>Options\<close> and \<open>GokrazyOptions\<close>, by type (but for the array \<open>info\<close>).\<close>

definition int_fields :: "string list" where
  "int_fields =
   [''do_compression'', ''local_server'', ''verbose'', ''msgs2stderr'', ''quiet'', ''output_motd'',
    ''do_stats'', ''human_readable'', ''dry_run'', ''recurse'', ''allow_inc_recurse'', ''xfer_dirs'',
    ''preserve_perms'', ''preserve_executability'', ''preserve_acls'', ''preserve_xattrs'',
    ''preserve_mtimes'', ''preserve_atimes'', ''open_noatime'', ''preserve_crtimes'',
    ''omit_dir_times'', ''omit_link_times'', ''modify_window'', ''am_root'', ''preserve_uid'',
    ''preserve_gid'', ''preserve_devices'', ''copy_devices'', ''write_devices'', ''preserve_specials'',
    ''preserve_links'', ''copy_links'', ''copy_unsafe_links'', ''safe_symlinks'', ''munge_symlinks'',
    ''copy_dirlinks'', ''keep_dirlinks'', ''preserve_hard_links'', ''relative_paths'', ''implied_dirs'',
    ''ignore_times'', ''size_only'', ''one_file_system'', ''update_only'', ''ignore_non_existing'',
    ''ignore_existing'', ''sparse_files'', ''preallocate_files'', ''inplace'', ''append_mode'',
    ''delete_during'', ''delete_mode'', ''delete_before'', ''delete_after'', ''delete_excluded'',
    ''missing_args'', ''remove_source_files'', ''force_delete'', ''ignore_errors'', ''max_delete'',
    ''cvs_exclude'', ''whole_file'', ''always_checksum'', ''fuzzy_basis'', ''do_compression_level'',
    ''do_progress'', ''keep_partial'', ''delay_updates'', ''prune_empty_dirs'', ''itemize_changes'',
    ''bwlimit'', ''make_backups'', ''list_only'', ''eol_nulls'', ''old_style_args'', ''protect_args'',
    ''trust_sender'', ''numeric_ids'', ''io_timeout'', ''connect_timeout'', ''do_fsync'',
    ''default_af_hint'', ''allow_8bit_chars'', ''mkpath_dest_arg'', ''use_qsort'', ''rsync_port'',
    ''blocking_io'', ''protocol_version'', ''checksum_seed'', ''am_server'', ''am_sender'',
    ''am_daemon'', ''daemon_bwlimit'', ''daemon_opt'', ''no_detach'']"

definition str_fields :: "string list" where
  "str_fields =
   [''max_size_arg'', ''min_size_arg'', ''max_alloc_arg'', ''checksum_choice'', ''compress_choice'',
    ''skip_compress'', ''partial_dir'', ''logfile_name'', ''logfile_format'', ''stdout_format'',
    ''bwlimit_arg'', ''backup_dir'', ''backup_suffix'', ''batch_name'', ''files_from'', ''shell_cmd'',
    ''rsync_path'', ''tmpdir'', ''iconv_opt'', ''copy_as'', ''bind_address'', ''sockopts'',
    ''password_file'', ''early_input_file'', ''outbuf_mode'', ''config_file'']"

definition gokrazy_fields :: "string list" where
  "gokrazy_fields = [''Config'', ''Listen'', ''MonitoringListen'', ''AnonSSHListen'', ''ModuleMap'']"

definition row_typed :: "poptOption \<Rightarrow> bool" where
  "row_typed r \<longleftrightarrow>
     (let t = argInfo r AND POPT_ARG_MASK
      in case arg r of
           ArgNil \<Rightarrow> t \<in> {POPT_ARG_NONE, POPT_ARG_STRING}
         | ArgInt f \<Rightarrow> t \<in> {POPT_ARG_NONE, POPT_ARG_VAL, POPT_ARG_INT} \<and> f \<in> set int_fields
         | ArgString f \<Rightarrow> t = POPT_ARG_STRING \<and> f \<in> set (str_fields @ gokrazy_fields)
         | ArgNotPtr _ \<Rightarrow> False)"

lemma masks:
  "POPT_ARG_NONE AND POPT_ARG_MASK = POPT_ARG_NONE" "POPT_ARG_STRING AND POPT_ARG_MASK = POPT_ARG_STRING"
  "POPT_ARG_INT AND POPT_ARG_MASK = POPT_ARG_INT" "POPT_ARG_VAL AND POPT_ARG_MASK = POPT_ARG_VAL"
  "POPT_BIT_SET AND POPT_ARG_MASK = POPT_ARG_VAL"
  by (simp_all add: POPT_defs)

lemma row_typed_row:
  "row_typed (row ln sn POPT_ARG_NONE ArgNil v)" "row_typed (row ln sn POPT_ARG_STRING ArgNil v)"
  "row_typed (row ln sn POPT_ARG_NONE (ArgInt f) v) \<longleftrightarrow> f \<in> set int_fields"
  "row_typed (row ln sn POPT_ARG_VAL (ArgInt f) v) \<longleftrightarrow> f \<in> set int_fields"
  "row_typed (row ln sn POPT_BIT_SET (ArgInt f) v) \<longleftrightarrow> f \<in> set int_fields"
  "row_typed (row ln sn POPT_ARG_INT (ArgInt f) v) \<longleftrightarrow> f \<in> set int_fields"
  "row_typed (row ln sn POPT_ARG_STRING (ArgString f) v) \<longleftrightarrow> f \<in> set (str_fields @ gokrazy_fields)"
  "\<not> row_typed (row ln sn t (ArgNotPtr n) v)"
  by (simp_all add: row_typed_def row_def masks)

text \<open>Membership of every field, as rewrite rules.\<close>

lemma list_mem: "xs = ys \<Longrightarrow> list_all (\<lambda>f. f \<in> set xs) ys"
  by (simp add: list_all_iff)

lemmas field_mem =
  list_mem [OF int_fields_def, unfolded list.pred_inject]
  list_mem [OF str_fields_def, unfolded list.pred_inject]
  list_mem [OF gokrazy_fields_def, unfolded list.pred_inject]

lemmas table_typed = list.pred_inject row_typed_row set_append Un_iff field_mem simp_thms

lemma tables_typed: "list_all row_typed (gokrazy_table @ options_table)"
proof -
  have "list_all row_typed options_table_1" by (simp only: options_table_1_def table_typed)
  moreover have "list_all row_typed options_table_2" by (simp only: options_table_2_def table_typed)
  moreover have "list_all row_typed gokrazy_table" by (simp only: gokrazy_table_def table_typed)
  ultimately show ?thesis by (simp add: options_table_def)
qed

text \<open>
  C37: the tables are well typed: every row of the main tables points, if anywhere, to an existing field
  of the type that its argument has; in the daemon's table the two rows for -v and -h are the only others.
\<close>
theorem tables_well_typed:
  "list_all row_typed (gokrazy_table @ options_table) \<and>
   filter (\<lambda>r. \<not> row_typed r) daemonTable =
     [row ''verbose'' ''v'' POPT_ARG_NONE (ArgNotPtr 0) (char_code (CHR ''v'')),
      row ''help'' ''h'' POPT_ARG_NONE (ArgNotPtr 0) (char_code (CHR ''h''))]"
  using tables_typed
  by (simp add: daemonTable_def row_typed_row field_mem)

section \<open>Panics\<close>

lemma findOption_table: "findOption t ln sn = Some r \<Longrightarrow> r \<in> set t"
  by (induction t) (auto split: if_splits)

lemma poptSaveArg_no_panic:
  assumes "row_typed r" and "arg r \<noteq> ArgNil"
    and "argInfo r AND POPT_ARG_MASK \<noteq> POPT_ARG_NONE" and "argInfo r AND POPT_ARG_MASK \<noteq> POPT_ARG_VAL"
  shows "poptSaveArg r next c \<noteq> Inl (OptPanic m)"
proof (cases "arg r")
  case (ArgInt f)
  with assms have "argInfo r AND POPT_ARG_MASK = POPT_ARG_INT" by (simp add: row_typed_def)
  with ArgInt show ?thesis by (simp add: poptSaveArg_def poptSaveInt_def split: option.split)
next
  case (ArgString f)
  with assms have "argInfo r AND POPT_ARG_MASK = POPT_ARG_STRING" by (simp add: row_typed_def)
  with ArgString show ?thesis by (simp add: poptSaveArg_def POPT_ARG_STRING_def POPT_ARG_INT_def)
qed (use assms in \<open>simp_all add: row_typed_def\<close>)

lemma popt_apply_no_panic:
  assumes t: "row_typed r" shows "popt_apply r longArg c \<noteq> Inl (OptPanic m)"
proof (cases "argInfo r AND POPT_ARG_MASK = POPT_ARG_NONE \<or> argInfo r AND POPT_ARG_MASK = POPT_ARG_VAL")
  case True
  then have "arg r = ArgNil \<or> (\<exists>f. arg r = ArgInt f)"
    using t by (cases "arg r") (auto simp: row_typed_def POPT_ARG_NONE_def POPT_ARG_STRING_def POPT_ARG_VAL_def)
  with True show ?thesis by (elim disjE exE) (simp_all add: popt_apply_def poptSaveInt_def Let_def)
next
  case False
  then have "poptSaveArg r next d \<noteq> Inl (OptPanic m)" if "arg r \<noteq> ArgNil" for "next" d
    using poptSaveArg_no_panic [OF t that] by blast
  with False show ?thesis by (auto simp: popt_apply_def Let_def split: option.splits sum.splits)
qed

lemma popt_short_no_panic:
  assumes "list_all row_typed (table c)" shows "popt_short c \<noteq> Inl (OptPanic m)"
  using assms popt_apply_no_panic
  by (auto simp: popt_short_def list_all_iff dest!: findOption_table split: option.splits)

lemma popt_step_no_panic:
  assumes "list_all row_typed (table c)" shows "popt_step c \<noteq> Inl (OptPanic m)"
  using assms popt_apply_no_panic popt_short_no_panic
  by (auto simp: popt_step_def Let_def list_all_iff dest!: findOption_table split: option.splits prod.splits)

text \<open>The table never changes.\<close>

lemma table_set [simp]: "table (set_int f x c) = table c" "table (set_str f y c) = table c"
  by (simp_all add: set_int_def set_str_def)

lemma table_popt_apply: "popt_apply r longArg c = Inr (v, d) \<Longrightarrow> table d = table c"
  by (auto simp: popt_apply_def poptSaveInt_def poptSaveArg_def Let_def
      split: parg.splits if_splits option.splits sum.splits)

lemma table_popt_step: "popt_step c = Inr (v, d) \<Longrightarrow> table d = table c"
  by (auto simp: popt_step_def popt_short_def Let_def dest!: table_popt_apply
      split: if_splits option.splits prod.splits)

lemma poptGetNextOpt_table:
  "list_all row_typed (table c) \<Longrightarrow>
     poptGetNextOpt c \<noteq> Inl (OptPanic m) \<and> (\<forall>v d. poptGetNextOpt c = Inr (v, d) \<longrightarrow> table d = table c)"
proof (induction c rule: poptGetNextOpt.induct)
  case (1 c)
  note eq = poptGetNextOpt.simps [of c]
  show ?case
  proof (cases "popt_step c")
    case (Inl e)
    with popt_step_no_panic [OF "1.prems", of m] eq show ?thesis by simp
  next
    case (Inr x)
    obtain v d where x: "x = (v, d)" by (cases x)
    have t: "table d = table c" using Inr x by (simp add: table_popt_step)
    show ?thesis
    proof (cases v)
      case None
      then have "poptGetNextOpt c = poptGetNextOpt d" using eq Inr x by simp
      moreover have "list_all row_typed (table d)" using "1.prems" by (simp only: t)
      ultimately show ?thesis using "1.IH" [OF Inr x [symmetric] None] unfolding t by metis
    qed (use eq Inr x t in auto)
  qed
qed

lemma handle_opt_table: "handle_opt v c = Inr d \<Longrightarrow> table d = table c"
  by (auto simp: handle_opt_def poptGetOptArg_def split: if_splits sum.splits)

lemma handle_opt_no_panic: "handle_opt v c \<noteq> Inl (OptPanic m)"
  by (auto simp: handle_opt_def special_opt_def poptGetOptArg_def Let_def split: sum.splits)

lemma parse_loop_panics:
  "list_all row_typed (table c) \<Longrightarrow> parse_loop argv gok c = Inl (OptPanic m) \<Longrightarrow>
     \<exists>o'. parse_daemon argv gok o' = Inl (OptPanic m)"
proof (induction argv gok c rule: parse_loop.induct)
  case (1 argv gok c)
  note eq = parse_loop.simps [of argv gok c] and t = poptGetNextOpt_table [OF "1.prems"(1), of m]
  obtain v d where g: "poptGetNextOpt c = Inr (v, d)"
    using eq t "1.prems"(2) by (cases "poptGetNextOpt c") auto
  have td: "list_all row_typed (table d)" using t g "1.prems"(1) by simp
  show ?case
  proof (cases "v = -1 \<or> v = OPT_DAEMON")
    case True
    with eq g "1.prems"(2) show ?thesis by (cases "parse_daemon argv gok (opts d)") (auto split: if_splits)
  next
    case False
    then obtain d' where h: "handle_opt v d = Inr d'"
      using eq g "1.prems"(2) handle_opt_no_panic [of v d m] by (cases "handle_opt v d") auto
    then have "parse_loop argv gok d' = Inl (OptPanic m)" using False eq g "1.prems"(2) by simp
    with "1.IH" [OF g refl _ _ h] False td handle_opt_table [OF h] show ?thesis by simp
  qed
qed



section \<open>Defaults\<close>

lemma setOutputVerbosity_fields [simp]:
  "ints (setOutputVerbosity o') = ints o'" "strs (setOutputVerbosity o') = strs o'"
  by (simp_all add: setOutputVerbosity_def)

text \<open>Each default touches one field; \<open>f\<close> is any field.\<close>

lemma default_ints:
  "ints (default_xfer o') f =
     (if f = ''xfer_dirs'' then
        (if ints o' ''recurse'' \<noteq> 0 then 1
         else if ints o' f < 0 then (if ints o' ''list_only'' \<noteq> 0 then 1 else 0) else ints o' f)
      else ints o' f)"
  "ints (default_relative o') f =
     (if f = ''relative_paths'' \<and> ints o' f < 0 then (if strs o' ''files_from'' \<noteq> [] then 1 else 0) else ints o' f)"
  "ints (default_implied o') f = (if f = ''implied_dirs'' \<and> ints o' ''relative_paths'' = 0 then 0 else ints o' f)"
  "ints (default_missing o') f = (if f = ''missing_args'' \<and> ints o' f = 3 then 2 else ints o' f)"
  "ints (default_suffix o') f = ints o' f"
  "ints (default_backups o') f = (if f = ''make_backups'' \<and> strs o' ''backup_dir'' \<noteq> [] then 1 else ints o' f)"
  "ints (default_name o') f = ints o' f" "ints (default_format o') f = ints o' f"
  by (auto simp: default_xfer_def default_relative_def default_implied_def default_missing_def default_suffix_def
      default_backups_def default_name_def default_format_def opt_set_def opt_str_def)

lemma default_strs:
  "strs (default_xfer o') f = strs o' f" "strs (default_relative o') f = strs o' f"
  "strs (default_implied o') f = strs o' f" "strs (default_missing o') f = strs o' f"
  "strs (default_suffix o') f = (if f = ''backup_suffix'' \<and> strs o' f = [] \<and> strs o' ''backup_dir'' = [] then ''~'' else strs o' f)"
  "strs (default_backups o') f = strs o' f" "strs (default_name o') f = strs o' f"
  "strs (default_format o') f = (if f = ''stdout_format'' \<and> 1 \<le> info o' ! INFO_NAME \<and> strs o' f = [] then ''%n%L'' else strs o' f)"
  by (auto simp: default_xfer_def default_relative_def default_implied_def default_missing_def default_suffix_def
      default_backups_def default_name_def default_format_def opt_set_def opt_str_def)

lemma default_format_info: "info (default_format o') = info o'"
  by (simp add: default_format_def opt_str_def)

text \<open>Looking an option up in the main table, row by row.\<close>

lemma findOption_append:
  "findOption (xs @ ys) ln sn = (case findOption xs ln sn of None \<Rightarrow> findOption ys ln sn | Some r \<Rightarrow> Some r)"
  by (induction xs) auto

lemma findOption_row:
  "findOption (row ln sn i a v # t) [] (c # cs) =
     (if sn = c # cs then Some (row ln sn i a v) else findOption t [] (c # cs))"
  "findOption (row ln sn i a v # t) (c # cs) [] =
     (if ln = c # cs then Some (row ln sn i a v) else findOption t (c # cs) [])"
  by (simp_all add: row_def)

lemmas lookup = options_table_def options_table_1_def options_table_2_def findOption_append findOption_row
  findOption.simps(1) list.inject list.distinct char.inject simp_thms if_True if_False option.case

lemma short_rows:
  "findOption options_table [] ''a'' = Some (row ''archive'' ''a'' POPT_ARG_NONE ArgNil (char_code (CHR ''a'')))"
  "findOption options_table [] ''v'' = Some (row ''verbose'' ''v'' POPT_ARG_NONE ArgNil (char_code (CHR ''v'')))"
  "findOption options_table [] ''l'' = Some (row ''links'' ''l'' POPT_ARG_VAL (ArgInt ''preserve_links'') 1)"
  "findOption options_table [] ''o'' = Some (row ''owner'' ''o'' POPT_ARG_VAL (ArgInt ''preserve_uid'') 1)"
  "findOption options_table [] ''g'' = Some (row ''group'' ''g'' POPT_ARG_VAL (ArgInt ''preserve_gid'') 1)"
  "findOption options_table [] ''D'' = Some (row [] ''D'' POPT_ARG_NONE ArgNil (char_code (CHR ''D'')))"
  "findOption options_table [] ''t'' = Some (row ''times'' ''t'' POPT_ARG_VAL (ArgInt ''preserve_mtimes'') 1)"
  "findOption options_table [] ''p'' = Some (row ''perms'' ''p'' POPT_ARG_VAL (ArgInt ''preserve_perms'') 1)"
  "findOption options_table [] ''r'' = Some (row ''recursive'' ''r'' POPT_ARG_VAL (ArgInt ''recurse'') 2)"
  "findOption options_table [] ''e'' = Some (row ''rsh'' ''e'' POPT_ARG_STRING (ArgString ''shell_cmd'') 0)"
  "findOption options_table [] ''z'' = Some (row ''compress'' ''z'' POPT_ARG_NONE ArgNil (char_code (CHR ''z'')))"
  by (simp_all only: lookup cong: if_weak_cong option.case_cong_weak)

lemma long_rows:
  "findOption options_table ''server'' [] = Some (row ''server'' [] POPT_ARG_NONE ArgNil OPT_SERVER)"
  "findOption options_table ''sender'' [] = Some (row ''sender'' [] POPT_ARG_NONE ArgNil OPT_SENDER)"
  "findOption options_table ''backup-dir'' [] = Some (row ''backup-dir'' [] POPT_ARG_STRING (ArgString ''backup_dir'') 0)"
  "findOption options_table ''zl'' [] = Some (row ''zl'' [] POPT_ARG_INT (ArgInt ''do_compression_level'') 0)"
  "findOption options_table ''lz'' [] = None" "findOption options_table ''av'' [] = None"
  "findOption options_table ''vlogDtpre.iLsfxC'' [] = None"
  by (simp_all only: lookup cong: if_weak_cong option.case_cong_weak)

text \<open>
  Running the parser on a given command line by rewriting: the recursive equations are only unfolded
  once the step before has been evaluated.
\<close>

lemma row_fields [simp]:
  "longName (row ln sn i a v) = ln" "shortName (row ln sn i a v) = sn" "argInfo (row ln sn i a v) = i"
  "arg (row ln sn i a v) = a" "val (row ln sn i a v) = v"
  by (simp_all add: row_def)

lemmas run_parser = parse_loop.simps poptGetNextOpt.simps popt_step_def popt_short_def popt_apply_def poptSaveInt_def
  poptSaveArg_def cut_eq_def trim_dash_def handle_opt_def special_opt_def archive_def poptGetOptArg_def set_int_def
  set_str_def opt_set_def opt_inc_def short_rows long_rows char_code_def masks POPT_defs OPT_defs not_implemented_def



section \<open>Command lines\<close>


end
